theory Spec2Isabelle
  imports Main
begin

section \<open>Wide strings and the library functions the converter calls\<close>

text \<open>
  \<open>Converter.cpp\<close> works on \<open>std::wstring\<close>. A wide character is modelled by its code
  point, a natural number, so that the comparisons \<open>160 <= str[i] && str[i] <= 255\<close> and
  code points above 255 are what they are in the program. A wide string is a list of them.
\<close>

type_synonym wchar = nat
type_synonym wstring = "wchar list"

definition L :: "string \<Rightarrow> wstring" where
  \<comment> \<open>the wide string literal \<open>L"..."\<close> of an ASCII text\<close>
  "L s = map of_char s"

definition iswdigit :: "wchar \<Rightarrow> bool" where
  \<comment> \<open>the class \<open>\\d\<close> of the regular expressions, and the digits \<open>stoi\<close> reads\<close>
  "iswdigit c = (48 \<le> c \<and> c \<le> 57)"

definition iswspace :: "wchar \<Rightarrow> bool" where
  \<comment> \<open>the white space \<open>stoi\<close> skips: space, and \<open>\\t \\n \\v \\f \\r\<close>\<close>
  "iswspace c = (c = 32 \<or> (9 \<le> c \<and> c \<le> 13))"

text \<open>
  The exceptions of the standard library that the code can meet: the two of \<open>stoi\<close> and
  \<open>substr\<close>, and \<open>Failure\<close> for an exception of the set-up of the input stream.
\<close>

datatype exception = Invalid_argument | Out_of_range | Failure

definition bind_exc :: "exception + 'a \<Rightarrow> ('a \<Rightarrow> exception + 'b) \<Rightarrow> exception + 'b" where
  \<comment> \<open>sequencing: the first exception thrown leaves the function\<close>
  "bind_exc r f = (case r of Inl e \<Rightarrow> Inl e | Inr v \<Rightarrow> f v)"

definition INT_MAX :: int where
  "INT_MAX = 2147483647"

definition INT_MIN :: int where
  "INT_MIN = - 2147483648"

definition int32 :: "int \<Rightarrow> int" where
  \<comment> \<open>the value an \<open>int\<close> holds after an operation whose exact result is \<open>x\<close>:
      two's complement wrap-around (the overflow itself is undefined in C++)\<close>
  "int32 x = (x + 2147483648) mod 4294967296 - 2147483648"

definition cdiv :: "int \<Rightarrow> int \<Rightarrow> int" where
  \<comment> \<open>the \<open>/\<close> of C++ on \<open>int\<close>: the quotient is truncated towards zero\<close>
  "cdiv a b = sgn a * sgn b * (\<bar>a\<bar> div \<bar>b\<bar>)"

fun dec_digits :: "nat \<Rightarrow> wstring" where
  "dec_digits n = (if n < 10 then [48 + n] else dec_digits (n div 10) @ [48 + n mod 10])"

declare dec_digits.simps [simp del]

definition to_wstring :: "int \<Rightarrow> wstring" where
  \<comment> \<open>\<open>std::to_wstring\<close>: the decimal digits, after a minus sign for a negative value\<close>
  "to_wstring i = (if i < 0 then 45 # dec_digits (nat (- i)) else dec_digits (nat i))"

definition substr :: "wstring \<Rightarrow> nat \<Rightarrow> nat \<Rightarrow> exception + wstring" where
  \<comment> \<open>\<open>str.substr(pos, n)\<close>, which throws \<open>std::out_of_range\<close> when \<open>pos > size()\<close>\<close>
  "substr str pos n = (if pos > length str then Inl Out_of_range else Inr (take n (drop pos str)))"

definition substr_from :: "wstring \<Rightarrow> nat \<Rightarrow> exception + wstring" where
  \<comment> \<open>\<open>str.substr(pos)\<close>: up to the end of the string\<close>
  "substr_from str pos = (if pos > length str then Inl Out_of_range else Inr (drop pos str))"

fun digits_value :: "int \<Rightarrow> wstring \<Rightarrow> int" where
  \<comment> \<open>the number a run of decimal digits denotes, read from the left\<close>
  "digits_value acc [] = acc"
| "digits_value acc (c # cs) = digits_value (acc * 10 + (int c - 48)) cs"

definition stoi :: "wstring \<Rightarrow> exception + int" where
  \<comment> \<open>\<open>std::stoi\<close> in base 10: white space is skipped, then an optional sign and the
      longest run of digits is read; no digit is \<open>std::invalid_argument\<close>, a value that
      does not fit an \<open>int\<close> is \<open>std::out_of_range\<close>\<close>
  "stoi str =
     (let s1 = dropWhile iswspace str;
          neg = (s1 \<noteq> [] \<and> hd s1 = 45);
          s2 = (if s1 \<noteq> [] \<and> (hd s1 = 45 \<or> hd s1 = 43) then tl s1 else s1);
          ds = takeWhile iswdigit s2;
          v = (if neg then - digits_value 0 ds else digits_value 0 ds)
      in if ds = [] then Inl Invalid_argument
         else if v < INT_MIN \<or> INT_MAX < v then Inl Out_of_range
         else Inr v)"

section \<open>Timestamps\<close>

definition timeStringToMs :: "wstring \<Rightarrow> exception + int" where
  \<comment> \<open>\<open>Converter::timeStringToMs\<close>; the sum is an \<open>int\<close> computation\<close>
  "timeStringToMs time =
     bind_exc (substr time 0 2) (\<lambda>s0. bind_exc (stoi s0) (\<lambda>hours.
     bind_exc (substr time 3 2) (\<lambda>s3. bind_exc (stoi s3) (\<lambda>minutes.
     bind_exc (substr time 6 2) (\<lambda>s6. bind_exc (stoi s6) (\<lambda>seconds.
     bind_exc (substr_from time 9) (\<lambda>s9. bind_exc (stoi s9) (\<lambda>milliseconds.
       Inr (int32 (hours * 3600000 + minutes * 60000 + seconds * 1000 + milliseconds))))))))))"

definition msToVttTimeString :: "int \<Rightarrow> wstring" where
  \<comment> \<open>\<open>Converter::msToVttTimeString\<close>; each product is at most \<open>\<bar>ms\<bar>\<close>, so that no
      operation of this function overflows\<close>
  "msToVttTimeString ms0 =
     (let hours = cdiv ms0 3600000;
          ms1 = ms0 - hours * 3600000;
          minutes = cdiv ms1 60000;
          ms2 = ms1 - minutes * 60000;
          seconds = cdiv ms2 1000;
          ms = ms2 - seconds * 1000
      in (if hours < 10 then L ''0'' else L '''') @ to_wstring hours
         @ L '':'' @ (if minutes < 10 then L ''0'' else L '''') @ to_wstring minutes
         @ L '':'' @ (if seconds < 10 then L ''0'' else L '''') @ to_wstring seconds
         @ L ''.'' @ (if ms < 100 then L ''0'' else L '''') @ (if ms < 10 then L ''0'' else L '''')
         @ to_wstring ms)"

section \<open>HTML encoding\<close>

text \<open>
  \<open>Converter::htmlEncodeUtf8\<close> walks the string by index and edits it in place: at a
  character from 160 to 255 the one character is replaced by the text \<open>&#<code>;\<close> and
  the index moves to the last character of the replacement; the loop's own \<open>i++\<close> then
  steps over it. \<open>htmlEncodeUtf8_loop i str\<close> is the loop from index \<open>i\<close> on.
\<close>

function htmlEncodeUtf8_loop :: "nat \<Rightarrow> wstring \<Rightarrow> wstring" where
  "htmlEncodeUtf8_loop i str =
     (if i < length str then
        (if 160 \<le> str ! i \<and> str ! i \<le> 255 then
           (let replacement = L ''&#'' @ to_wstring (int (str ! i)) @ L '';'';
                str' = take i str @ replacement @ drop (i + 1) str;
                i' = i + (length replacement - 1)
            in htmlEncodeUtf8_loop (i' + 1) str')
         else htmlEncodeUtf8_loop (i + 1) str)
      else str)"
  by pat_completeness auto
termination
  by (relation "measure (\<lambda>(i, str). length str - i)") (auto simp: L_def)

declare htmlEncodeUtf8_loop.simps [simp del]

definition htmlEncodeUtf8 :: "wstring \<Rightarrow> wstring" where
  "htmlEncodeUtf8 str = htmlEncodeUtf8_loop 0 str"

section \<open>Line classification\<close>

definition rgxDialogNumber :: "wstring \<Rightarrow> bool" where
  \<comment> \<open>\<open>regex_match(sLine, wregex(L"\\d+"))\<close>: the whole line is one or more digits\<close>
  "rgxDialogNumber sLine = (sLine \<noteq> [] \<and> list_all iswdigit sLine)"

fun rgxTime :: "wstring \<Rightarrow> bool" where
  \<comment> \<open>the whole string matches \<open>\\d\\d:\\d\\d:\\d\\d,\\d{3}\<close>\<close>
  "rgxTime [h1, h2, c1, m1, m2, c2, s1, s2, c3, f1, f2, f3] =
     (iswdigit h1 \<and> iswdigit h2 \<and> c1 = 58 \<and> iswdigit m1 \<and> iswdigit m2 \<and> c2 = 58
      \<and> iswdigit s1 \<and> iswdigit s2 \<and> c3 = 44 \<and> iswdigit f1 \<and> iswdigit f2 \<and> iswdigit f3)"
| "rgxTime _ = False"

definition rgxTimeFrame :: "wstring \<Rightarrow> (wstring \<times> wstring) option" where
  \<comment> \<open>\<open>regex_match(sLine, match, rgxTimeFrame)\<close>: \<open>None\<close> when the whole line does not
      match, else the two groups \<open>match[1]\<close> and \<open>match[2]\<close>\<close>
  "rgxTimeFrame sLine =
     (if length sLine = 29 \<and> rgxTime (take 12 sLine) \<and> take 5 (drop 12 sLine) = L '' --> ''
         \<and> rgxTime (drop 17 sLine)
      then Some (take 12 sLine, drop 17 sLine) else None)"

section \<open>Converting a file\<close>

text \<open>
  Modelled from the spec: \<open>Utils::wstr_replace\<close> is declared in \<open>Utils.h\<close>, which is not
  among the sources. The spec says of its one call that it will
  ``simply replace the comma separators with periods'': every occurrence of the text
  \<open>from\<close> is replaced by \<open>to\<close>, from the left.
\<close>

function wstr_replace :: "wstring \<Rightarrow> wstring \<Rightarrow> wstring \<Rightarrow> wstring" where
  "wstr_replace str from to =
     (if str = [] \<or> from = [] then str
      else if take (length from) str = from
        then to @ wstr_replace (drop (length from) str) from to
        else hd str # wstr_replace (tl str) from to)"
  by pat_completeness auto
termination
  by (relation "measure (\<lambda>(str, from, to). length str)") auto

declare wstr_replace.simps [simp del]

record Converter =
  timeOffsetMs :: int
  outputDir :: string
  quiet :: bool

definition endl :: wstring where
  "endl = [10]"

definition timeFrameOffset :: "int \<Rightarrow> wstring \<times> wstring \<Rightarrow> exception + wstring" where
  \<comment> \<open>the branch \<open>_timeOffsetMs != 0\<close> of \<open>convertFile\<close>, lines 133 to 143\<close>
  "timeFrameOffset offs m =
     bind_exc (timeStringToMs (fst m)) (\<lambda>msStartTime0.
     bind_exc (timeStringToMs (snd m)) (\<lambda>msEndTime0.
       (let msStartTime1 = int32 (msStartTime0 + offs);
            msEndTime1 = int32 (msEndTime0 + offs);
            msStartTime = (if msStartTime1 < 0 then 0 else msStartTime1);
            msEndTime = (if msEndTime1 < 0 then 0 else msEndTime1)
        in Inr (msToVttTimeString msStartTime @ L '' --> '' @ msToVttTimeString msEndTime))))"

definition timeFrameReplace :: "wstring \<Rightarrow> wstring" where
  \<comment> \<open>the branch \<open>_timeOffsetMs == 0\<close>, line 146\<close>
  "timeFrameReplace sLine = wstr_replace sLine (L '','') (L ''.'')"

definition convertLine :: "Converter \<Rightarrow> wstring \<Rightarrow> exception + wstring" where
  \<comment> \<open>one turn of the loop of \<open>convertFile\<close>: what it writes to \<open>outfile\<close> for the line
      \<open>sLine\<close>, or the exception that leaves the loop\<close>
  "convertLine c sLine =
     (if rgxDialogNumber sLine then Inr []
      else (case rgxTimeFrame sLine of
              Some m \<Rightarrow>
                (if timeOffsetMs c \<noteq> 0
                 then bind_exc (timeFrameOffset (timeOffsetMs c) m) (\<lambda>sLine'. Inr (sLine' @ endl))
                 else Inr (timeFrameReplace sLine @ endl))
            | None \<Rightarrow> Inr (htmlEncodeUtf8 sLine @ endl)))"

fun convertLines :: "Converter \<Rightarrow> wstring list \<Rightarrow> wstring \<Rightarrow> exception option \<times> wstring" where
  \<comment> \<open>the loop: the lines still to read and the text written so far; the result is the
      exception that ended the loop, if one did, and the text written\<close>
  "convertLines c [] out = (None, out)"
| "convertLines c (sLine # rest) out =
     (case convertLine c sLine of
        Inl e \<Rightarrow> (Some e, out)
      | Inr w \<Rightarrow> convertLines c rest (out @ w))"

text \<open>
  What \<open>convertFile\<close> meets behind a file path is a parameter, in two parts.
  \<open>Utils::formatInStream\<close> is not among the sources, and it is called inside the
  \<open>try\<close> block before the output file is opened: the input stream is \<open>Inl e\<close> when
  setting it up throws \<open>e\<close>, and \<open>Inr ls\<close> when it returns and \<open>getline\<close> then delivers
  the lines \<open>ls\<close>. The output file is opened by the constructor of \<open>wofstream\<close>, and the
  code neither tests \<open>is_open\<close> nor sets an exception mask: when the file cannot be
  opened (\<open>out_opens\<close> is false) every \<open>outfile <<\<close> does nothing, nothing throws, and the
  loop runs as it does otherwise.
\<close>

type_synonym infile = "exception + wstring list"

record srt_file =
  in_stream :: infile
  out_opens :: bool

record file_result =
  retcode :: int
  outfile :: "wstring option"
  cerr :: "(string \<times> exception) option"

definition convertFile :: "Converter \<Rightarrow> string \<Rightarrow> srt_file \<Rightarrow> file_result" where
  \<comment> \<open>\<open>Converter::convertFile\<close>: the return code, the text in the output file (\<open>None\<close>
      when the output file was never opened or could not be opened), and the file path
      and cause that the \<open>catch\<close> block reports. The computation of the output path,
      before the \<open>try\<close> block, is left out.\<close>
  "convertFile c filepath f =
     (case in_stream f of
        Inl e \<Rightarrow> \<lparr>retcode = 1, outfile = None, cerr = Some (filepath, e)\<rparr>
      | Inr ls \<Rightarrow>
          (case convertLines c ls (L ''WEBVTT'' @ endl @ endl) of
             (Some e, out) \<Rightarrow>
               \<lparr>retcode = 1, outfile = (if out_opens f then Some out else None),
                cerr = Some (filepath, e)\<rparr>
           | (None, out) \<Rightarrow>
               \<lparr>retcode = 0, outfile = (if out_opens f then Some out else None),
                cerr = None\<rparr>))"

section \<open>Walking a directory\<close>

text \<open>
  A directory entry has a name and a type (\<open>d_type\<close>). What the walk does with it depends
  on what is behind the name: for a regular file or a symbolic link the file that
  \<open>convertFile\<close> meets, for a directory what \<open>opendir\<close> gives, which is \<open>NULL\<close>
  (\<open>Unreadable\<close>) or the entries that \<open>readdir\<close> delivers in turn.
\<close>

datatype fsnode = DT_REG srt_file | DT_LNK srt_file | DT_DIR dir | DT_UNKNOWN
and dir = Unreadable | Entries "(string \<times> fsnode) list"

definition DIR_SEPARATOR :: string where
  \<comment> \<open>the branch of the \<open>#if\<close> for systems other than Windows\<close>
  "DIR_SEPARATOR = ''/''"

definition npos :: int where
  \<comment> \<open>\<open>std::string::npos\<close>, the largest \<open>size_t\<close> (of 64 bits)\<close>
  "npos = 18446744073709551615"

fun rfind_char :: "string \<Rightarrow> char \<Rightarrow> int" where
  \<comment> \<open>the search of \<open>find_last_of\<close>, on the reversed string\<close>
  "rfind_char [] ch = npos"
| "rfind_char (x # xs) ch = (if x = ch then int (length xs) else rfind_char xs ch)"

definition find_last_of :: "string \<Rightarrow> char \<Rightarrow> int" where
  \<comment> \<open>\<open>str.find_last_of(".")\<close>: the index of the last occurrence, or \<open>npos\<close>\<close>
  "find_last_of str ch = rfind_char (rev str) ch"

definition file_ext :: "string \<Rightarrow> string" where
  \<comment> \<open>\<open>item.substr(item.find_last_of(".") + 1)\<close>, the sum computed in \<open>size_t\<close>, where
      \<open>npos + 1\<close> is 0; the position is never beyond the end of the string, so
      \<open>substr\<close> does not throw\<close>
  "file_ext item = drop (nat ((find_last_of item CHR ''.'' + 1) mod 18446744073709551616)) item"

text \<open>
  Modelled from the spec: \<open>Utils::rtrim\<close> is declared in \<open>Utils.h\<close>, which is not among
  the sources, and the spec does not describe it. The comment at its calls,
  ``Strip trailing slashes from the directory's path'', is followed: the trailing
  occurrences of the character are removed.
\<close>

definition rtrim :: "string \<Rightarrow> char \<Rightarrow> string" where
  "rtrim str ch = rev (dropWhile (\<lambda>x. x = ch) (rev str))"

text \<open>
  \<open>convertDirectory\<close> returns its return code. The model returns with it the calls of
  \<open>convertFile\<close> that the walk made, in their order: the path and the result of each.
  \<open>readdir_loop\<close> is the \<open>for (;;)\<close> loop over the entries still to be read, with the
  value of \<open>nRetCodes\<close> and the calls made so far.
\<close>

type_synonym calls = "(string \<times> file_result) list"

fun convertDirectory :: "Converter \<Rightarrow> string \<Rightarrow> bool \<Rightarrow> dir \<Rightarrow> int \<times> calls"
and readdir_loop :: "Converter \<Rightarrow> string \<Rightarrow> bool \<Rightarrow> (string \<times> fsnode) list \<Rightarrow> int \<Rightarrow> calls \<Rightarrow> int \<times> calls"
where
  "convertDirectory c dirpath0 recursive Unreadable = (1, [])"
| "convertDirectory c dirpath0 recursive (Entries es) =
     (let dirpath = rtrim (rtrim dirpath0 CHR ''/'') (CHR 0x5C)
      in case readdir_loop c dirpath recursive es 0 [] of
           (nRetCodes, cs) \<Rightarrow> (if nRetCodes \<noteq> 0 then 1 else 0, cs))"
| "readdir_loop c dirpath recursive [] nRetCodes cs = (nRetCodes, cs)"
| "readdir_loop c dirpath recursive ((item, DT_REG f) # rest) nRetCodes cs =
     (let ext = file_ext item
      in if ext = ''srt'' \<or> ext = ''SRT''
         then (let filepath = dirpath @ DIR_SEPARATOR @ item; r = convertFile c filepath f
               in readdir_loop c dirpath recursive rest (nRetCodes + retcode r) (cs @ [(filepath, r)]))
         else readdir_loop c dirpath recursive rest nRetCodes cs)"
| "readdir_loop c dirpath recursive ((item, DT_LNK f) # rest) nRetCodes cs =
     (let ext = file_ext item
      in if ext = ''srt'' \<or> ext = ''SRT''
         then (let filepath = dirpath @ DIR_SEPARATOR @ item; r = convertFile c filepath f
               in readdir_loop c dirpath recursive rest (nRetCodes + retcode r) (cs @ [(filepath, r)]))
         else readdir_loop c dirpath recursive rest nRetCodes cs)"
| "readdir_loop c dirpath recursive ((item, DT_DIR d) # rest) nRetCodes cs =
     (if recursive \<and> item \<noteq> ''.'' \<and> item \<noteq> ''..''
      then (case convertDirectory c (dirpath @ DIR_SEPARATOR @ item) recursive d of
              (r, cs') \<Rightarrow> readdir_loop c dirpath recursive rest (nRetCodes + r) (cs @ cs'))
      else readdir_loop c dirpath recursive rest nRetCodes cs)"
| "readdir_loop c dirpath recursive ((item, DT_UNKNOWN) # rest) nRetCodes cs =
     readdir_loop c dirpath recursive rest nRetCodes cs"

section \<open>The specification's notions\<close>

text \<open>
  The definitions of this section follow the words of the specification, not the code;
  the theorems below compare the code with them.
\<close>

definition html_reference :: "wchar \<Rightarrow> wstring" where
  \<comment> \<open>the decimal numeric character reference \<open>&#<codepoint>;\<close>\<close>
  "html_reference c = L ''&#'' @ to_wstring (int c) @ L '';''"

definition html_escape_char :: "wchar \<Rightarrow> wstring" where
  \<comment> \<open>a character of the inclusive range [160, 255] becomes its reference, every other
      character passes through unchanged\<close>
  "html_escape_char c = (if 160 \<le> c \<and> c \<le> 255 then html_reference c else [c])"

definition zero_pad :: "nat \<Rightarrow> nat \<Rightarrow> wstring" where
  \<comment> \<open>the decimal digits of \<open>n\<close>, zero-padded on the left to the width \<open>w\<close>\<close>
  "zero_pad w n = replicate (w - length (dec_digits n)) 48 @ dec_digits n"

definition time_field :: "wstring \<Rightarrow> nat \<Rightarrow> nat \<Rightarrow> int" where
  \<comment> \<open>the number written by the \<open>n\<close> digits at position \<open>pos\<close> of a timestamp\<close>
  "time_field t pos n = digits_value 0 (take n (drop pos t))"

definition fits_int :: "int \<Rightarrow> bool" where
  \<comment> \<open>the exact result of an \<open>int\<close> operation is an \<open>int\<close>: no overflow\<close>
  "fits_int x = (INT_MIN \<le> x \<and> x \<le> INT_MAX)"

definition conversion_exception :: "Converter \<Rightarrow> srt_file \<Rightarrow> exception option" where
  \<comment> \<open>the exception that occurs during the conversion of a file, if one does\<close>
  "conversion_exception c f =
     (case in_stream f of Inl e \<Rightarrow> Some e
      | Inr ls \<Rightarrow> fst (convertLines c ls (L ''WEBVTT'' @ endl @ endl)))"

definition entry_retcode :: "Converter \<Rightarrow> string \<Rightarrow> bool \<Rightarrow> string \<times> fsnode \<Rightarrow> int" where
  \<comment> \<open>the return code of the conversion that the walk of \<open>dirpath\<close> makes for one entry:
      of the file or of the subdirectory; 0 where it converts nothing\<close>
  "entry_retcode c dirpath recursive e =
     (case e of (item, node) \<Rightarrow>
        (case node of
           DT_REG f \<Rightarrow>
             if file_ext item = ''srt'' \<or> file_ext item = ''SRT''
             then retcode (convertFile c (dirpath @ DIR_SEPARATOR @ item) f) else 0
         | DT_LNK f \<Rightarrow>
             if file_ext item = ''srt'' \<or> file_ext item = ''SRT''
             then retcode (convertFile c (dirpath @ DIR_SEPARATOR @ item) f) else 0
         | DT_DIR d \<Rightarrow>
             if recursive \<and> item \<noteq> ''.'' \<and> item \<noteq> ''..''
             then fst (convertDirectory c (dirpath @ DIR_SEPARATOR @ item) recursive d) else 0
         | DT_UNKNOWN \<Rightarrow> 0))"

definition some_conversion_failed :: "Converter \<Rightarrow> string \<Rightarrow> bool \<Rightarrow> dir \<Rightarrow> bool" where
  \<comment> \<open>at least one file conversion or recursive subdirectory conversion of the walk failed\<close>
  "some_conversion_failed c dirpath0 recursive d =
     (case d of
        Unreadable \<Rightarrow> False
      | Entries es \<Rightarrow>
          list_ex (\<lambda>e. entry_retcode c (rtrim (rtrim dirpath0 CHR ''/'') (CHR 0x5C)) recursive e \<noteq> 0) es)"

fun selected_files :: "string \<Rightarrow> bool \<Rightarrow> dir \<Rightarrow> (string \<times> srt_file) list"
and selected_entries :: "string \<Rightarrow> bool \<Rightarrow> (string \<times> fsnode) list \<Rightarrow> (string \<times> srt_file) list"
where
  \<comment> \<open>the files of a batch, by the names and types of the entries alone: path and file\<close>
  "selected_files dirpath0 recursive Unreadable = []"
| "selected_files dirpath0 recursive (Entries es) =
     selected_entries (rtrim (rtrim dirpath0 CHR ''/'') (CHR 0x5C)) recursive es"
| "selected_entries dirpath recursive [] = []"
| "selected_entries dirpath recursive ((item, DT_REG f) # rest) =
     (if file_ext item = ''srt'' \<or> file_ext item = ''SRT''
      then [(dirpath @ DIR_SEPARATOR @ item, f)] else [])
     @ selected_entries dirpath recursive rest"
| "selected_entries dirpath recursive ((item, DT_LNK f) # rest) =
     (if file_ext item = ''srt'' \<or> file_ext item = ''SRT''
      then [(dirpath @ DIR_SEPARATOR @ item, f)] else [])
     @ selected_entries dirpath recursive rest"
| "selected_entries dirpath recursive ((item, DT_DIR d) # rest) =
     (if recursive \<and> item \<noteq> ''.'' \<and> item \<noteq> ''..''
      then selected_files (dirpath @ DIR_SEPARATOR @ item) recursive d else [])
     @ selected_entries dirpath recursive rest"
| "selected_entries dirpath recursive ((item, DT_UNKNOWN) # rest) =
     selected_entries dirpath recursive rest"

section \<open>Properties of the HTML encoding\<close>

lemma L_simps: "L [] = []" "L (x # xs) = of_char x # L xs"
  by (simp_all add: L_def)

lemma htmlEncodeUtf8_loop_concat:
  "htmlEncodeUtf8_loop (length pre) (pre @ str) = pre @ concat (map html_escape_char str)"
proof (induction str arbitrary: pre)
  case Nil
  show ?case by (subst htmlEncodeUtf8_loop.simps) simp
next
  case (Cons c str)
  show ?case
  proof (cases "160 \<le> c \<and> c \<le> 255")
    case True
    have len: "length pre + (length (html_reference c) - 1) + 1 = length (pre @ html_reference c)"
      by (simp add: html_reference_def L_simps)
    have "htmlEncodeUtf8_loop (length pre) (pre @ c # str)
        = htmlEncodeUtf8_loop (length (pre @ html_reference c)) ((pre @ html_reference c) @ str)"
      using True len
      by (subst htmlEncodeUtf8_loop.simps) (simp add: Let_def html_reference_def L_simps)
    also have "\<dots> = (pre @ html_reference c) @ concat (map html_escape_char str)"
      by (rule Cons.IH)
    finally show ?thesis using True by (simp add: html_escape_char_def [of c])
  next
    case False
    have "htmlEncodeUtf8_loop (length pre) (pre @ c # str)
        = htmlEncodeUtf8_loop (length (pre @ [c])) ((pre @ [c]) @ str)"
      using False by (subst htmlEncodeUtf8_loop.simps) auto
    also have "\<dots> = (pre @ [c]) @ concat (map html_escape_char str)"
      by (rule Cons.IH)
    finally show ?thesis using False by (auto simp: html_escape_char_def [of c])
  qed
qed

lemma htmlEncodeUtf8_concat: "htmlEncodeUtf8 str = concat (map html_escape_char str)"
  using htmlEncodeUtf8_loop_concat [of "[]" str] by (simp add: htmlEncodeUtf8_def)

lemma dec_digits_iswdigit: "list_all iswdigit (dec_digits n)"
proof (induction n rule: dec_digits.induct)
  case (1 n)
  show ?case
  proof (cases "n < 10")
    case True
    then show ?thesis by (subst dec_digits.simps) (simp add: iswdigit_def)
  next
    case False
    have "n mod 10 < 10" by simp
    then have "iswdigit (48 + n mod 10)" unfolding iswdigit_def by linarith
    with False 1 show ?thesis by (subst dec_digits.simps) simp
  qed
qed

lemma html_reference_below_160: "c' \<in> set (html_reference c) \<Longrightarrow> c' < 160"
  using dec_digits_iswdigit [of c]
  by (auto simp: html_reference_def L_simps to_wstring_def list_all_iff iswdigit_def)

lemma html_escape_char_outside: "c' \<in> set (html_escape_char c) \<Longrightarrow> \<not> (160 \<le> c' \<and> c' \<le> 255)"
  using html_reference_below_160 [of c' c]
  by (auto simp: html_escape_char_def split: if_splits)

lemma htmlEncodeUtf8_outside:
  "c' \<in> set (htmlEncodeUtf8 str) \<Longrightarrow> \<not> (160 \<le> c' \<and> c' \<le> 255)"
  using html_escape_char_outside by (auto simp: htmlEncodeUtf8_concat)

lemma htmlEncodeUtf8_fixed:
  "\<forall>c \<in> set str. \<not> (160 \<le> c \<and> c \<le> 255) \<Longrightarrow> htmlEncodeUtf8 str = str"
  unfolding htmlEncodeUtf8_concat
  by (induction str) (auto simp: html_escape_char_def)

text \<open>
  C5. The HTML encoding of a line replaces exactly the characters whose code point is in
  the inclusive range [160, 255] by the decimal reference \<open>&#<codepoint>;\<close> and leaves
  every other character as it is: the result is the concatenation, character by
  character, of the reference or of the character itself. Code point 233 becomes
  \<open>&#233;\<close>, code point 65 (\<open>A\<close>) and code point 256 are unchanged, and the characters
  \<open><\<close>, \<open>>\<close>, \<open>&\<close> and the two quotes are not escaped.
\<close>

theorem htmlEncodeUtf8_replaces_160_to_255:
  "htmlEncodeUtf8 str = concat (map html_escape_char str)
   \<and> htmlEncodeUtf8 [233] = L ''&#233;''
   \<and> htmlEncodeUtf8 (L ''A'') = L ''A'' \<and> L ''A'' = [65]
   \<and> htmlEncodeUtf8 [256] = [256]
   \<and> htmlEncodeUtf8 (L [CHR ''<'', CHR ''>'', CHR ''&'', CHR 0x22, CHR 0x27])
       = L [CHR ''<'', CHR ''>'', CHR ''&'', CHR 0x22, CHR 0x27]"
  apply (simp add: htmlEncodeUtf8_concat)
  apply code_simp
  done

text \<open>
  C10. \<open>htmlEncodeUtf8\<close> is idempotent: encoding an encoded line changes nothing. The
  reason is part of the statement: every character of a reference \<open>&#<n>;\<close> has a code
  point below 160, and the result of one pass has no character in the range [160, 255].
\<close>

theorem htmlEncodeUtf8_idempotent:
  "htmlEncodeUtf8 (htmlEncodeUtf8 str) = htmlEncodeUtf8 str
   \<and> (\<forall>c \<in> set (htmlEncodeUtf8 str). \<not> (160 \<le> c \<and> c \<le> 255))
   \<and> (\<forall>c. \<forall>c' \<in> set (html_reference c). c' < 160)"
  using htmlEncodeUtf8_fixed [of "htmlEncodeUtf8 str"] htmlEncodeUtf8_outside [of _ str]
    html_reference_below_160
  by blast

theorem htmlEncodeUtf8_idempotent_witness:
  "htmlEncodeUtf8 (htmlEncodeUtf8 [99, 233]) = htmlEncodeUtf8 [99, 233]
   \<and> 38 \<in> set (htmlEncodeUtf8 [99, 233]) \<and> \<not> (160 \<le> (38::nat) \<and> (38::nat) \<le> 255)
   \<and> 51 \<in> set (html_reference 233) \<and> (51::nat) < 160"
proof -
  have a: "38 \<in> set (htmlEncodeUtf8 [99, 233])"
    by code_simp
  have b: "51 \<in> set (html_reference 233)"
    by code_simp
  from htmlEncodeUtf8_idempotent [of "[99, 233]"]
  have c: "htmlEncodeUtf8 (htmlEncodeUtf8 [99, 233]) = htmlEncodeUtf8 [99, 233]"
    and d: "\<forall>c \<in> set (htmlEncodeUtf8 [99, 233]). \<not> (160 \<le> c \<and> c \<le> 255)"
    and e: "\<forall>c. \<forall>c' \<in> set (html_reference c). c' < 160"
    by blast+
  from d a have "\<not> (160 \<le> (38::nat) \<and> (38::nat) \<le> 255)" by (rule bspec)
  moreover from e b have "(51::nat) < 160" by blast
  ultimately show ?thesis using a b c by blast
qed

section \<open>Properties of the timestamp functions\<close>

text \<open>The digits that \<open>to_wstring\<close> writes are read back by \<open>stoi\<close> as the same number.\<close>

lemma digits_value_snoc: "digits_value acc (cs @ [c]) = digits_value acc cs * 10 + (int c - 48)"
  by (induction cs arbitrary: acc) simp_all

lemma digits_value_dec_digits: "digits_value 0 (dec_digits n) = int n"
proof (induction n rule: dec_digits.induct)
  case (1 n)
  show ?case
  proof (cases "n < 10")
    case True
    then show ?thesis by (subst dec_digits.simps) simp
  next
    case False
    have "n div 10 * 10 + n mod 10 = n"
      by simp
    then have "int (n div 10 * 10 + n mod 10) = int n"
      by (rule arg_cong)
    then have "int (n div 10) * 10 + int (n mod 10) = int n"
      by (simp only: of_nat_add of_nat_mult of_nat_numeral)
    with False 1 show ?thesis
      by (subst dec_digits.simps) (simp add: digits_value_snoc)
  qed
qed

lemma cdiv_nonneg: "0 \<le> a \<Longrightarrow> 0 < b \<Longrightarrow> cdiv a b = a div b"
  by (cases "a = 0") (simp_all add: cdiv_def)

lemma dec_digits_1: "n < 10 \<Longrightarrow> dec_digits n = [48 + n]"
  by (subst dec_digits.simps) simp

lemma dec_digits_2: "10 \<le> n \<Longrightarrow> n < 100 \<Longrightarrow> dec_digits n = [48 + n div 10, 48 + n mod 10]"
  by (subst dec_digits.simps) (simp add: dec_digits_1)

lemma dec_digits_3:
  "100 \<le> n \<Longrightarrow> n < 1000 \<Longrightarrow> dec_digits n = [48 + n div 100, 48 + n div 10 mod 10, 48 + n mod 10]"
  by (subst dec_digits.simps) (simp add: dec_digits_2 div_mult2_eq [symmetric])

lemma length_dec_digits_ge: "100 \<le> n \<Longrightarrow> 3 \<le> length (dec_digits n)"
proof -
  assume n: "100 \<le> n"
  have a: "dec_digits n = dec_digits (n div 10) @ [48 + n mod 10]"
    using n by (subst dec_digits.simps) simp
  have "\<not> n div 10 < 10"
    using n by linarith
  then have b: "dec_digits (n div 10) = dec_digits (n div 10 div 10) @ [48 + n div 10 mod 10]"
    by (subst dec_digits.simps) simp
  have "1 \<le> length (dec_digits (n div 10 div 10))"
    by (subst dec_digits.simps) simp
  with a b show ?thesis by simp
qed

lemma zero_pad_2_code:
  "0 \<le> h \<Longrightarrow> (if h < 10 then L ''0'' else L '''') @ to_wstring h = zero_pad 2 (nat h)"
proof -
  assume h: "0 \<le> h"
  consider "nat h < 10" | "10 \<le> nat h" "nat h < 100" | "100 \<le> nat h" by linarith
  then show ?thesis
  proof cases
    case 1
    then show ?thesis using h by (simp add: zero_pad_def to_wstring_def dec_digits_1 L_simps)
  next
    case 2
    then show ?thesis using h by (simp add: zero_pad_def to_wstring_def dec_digits_2 L_simps)
  next
    case 3
    then show ?thesis using h length_dec_digits_ge [of "nat h"]
      by (simp add: zero_pad_def to_wstring_def L_simps)
  qed
qed

lemma zero_pad_3_code:
  "0 \<le> h \<Longrightarrow> (if h < 100 then L ''0'' else L '''') @ (if h < 10 then L ''0'' else L '''') @ to_wstring h
     = zero_pad 3 (nat h)"
proof -
  assume h: "0 \<le> h"
  consider "nat h < 10" | "10 \<le> nat h" "nat h < 100" | "100 \<le> nat h" by linarith
  then show ?thesis
  proof cases
    case 1
    then have "h < 10" "h < 100" using h by linarith+
    then show ?thesis using 1 h by (simp add: zero_pad_def to_wstring_def dec_digits_1 L_simps numeral_3_eq_3)
  next
    case 2
    then have "\<not> h < 10" "h < 100" using h by linarith+
    then show ?thesis using 2 h by (simp add: zero_pad_def to_wstring_def dec_digits_2 L_simps)
  next
    case 3
    then have "\<not> h < 10" "\<not> h < 100" using h by linarith+
    then show ?thesis using 3 h length_dec_digits_ge [of "nat h"]
      by (simp add: zero_pad_def to_wstring_def L_simps)
  qed
qed

lemma msToVttTimeString_fields:
  assumes "0 \<le> ms"
  shows "msToVttTimeString ms =
     zero_pad 2 (nat (ms div 3600000)) @ L '':''
     @ zero_pad 2 (nat (ms mod 3600000 div 60000)) @ L '':''
     @ zero_pad 2 (nat (ms mod 3600000 mod 60000 div 1000)) @ L ''.''
     @ zero_pad 3 (nat (ms mod 3600000 mod 60000 mod 1000))"
proof -
  have h: "cdiv ms 3600000 = ms div 3600000"
    using assms by (simp add: cdiv_nonneg)
  have r1: "ms - ms div 3600000 * 3600000 = ms mod 3600000"
    by (simp add: minus_div_mult_eq_mod)
  have m: "cdiv (ms mod 3600000) 60000 = ms mod 3600000 div 60000"
    by (simp add: cdiv_nonneg)
  have r2: "ms mod 3600000 - ms mod 3600000 div 60000 * 60000 = ms mod 3600000 mod 60000"
    by (simp add: minus_div_mult_eq_mod)
  have s: "cdiv (ms mod 3600000 mod 60000) 1000 = ms mod 3600000 mod 60000 div 1000"
    by (simp add: cdiv_nonneg)
  have r3: "ms mod 3600000 mod 60000 - ms mod 3600000 mod 60000 div 1000 * 1000
      = ms mod 3600000 mod 60000 mod 1000"
    by (simp add: minus_div_mult_eq_mod)
  have p1: "(if ms div 3600000 < 10 then L ''0'' else L '''') @ to_wstring (ms div 3600000)
      = zero_pad 2 (nat (ms div 3600000))"
    using assms by (intro zero_pad_2_code) simp
  have p2: "(if ms mod 3600000 div 60000 < 10 then L ''0'' else L '''') @ to_wstring (ms mod 3600000 div 60000)
      = zero_pad 2 (nat (ms mod 3600000 div 60000))"
    by (intro zero_pad_2_code) simp
  have p3: "(if ms mod 3600000 mod 60000 div 1000 < 10 then L ''0'' else L '''')
      @ to_wstring (ms mod 3600000 mod 60000 div 1000)
      = zero_pad 2 (nat (ms mod 3600000 mod 60000 div 1000))"
    by (intro zero_pad_2_code) simp
  have p4: "(if ms mod 3600000 mod 60000 mod 1000 < 100 then L ''0'' else L '''')
      @ (if ms mod 3600000 mod 60000 mod 1000 < 10 then L ''0'' else L '''')
      @ to_wstring (ms mod 3600000 mod 60000 mod 1000)
      = zero_pad 3 (nat (ms mod 3600000 mod 60000 mod 1000))"
    by (intro zero_pad_3_code) simp
  have "msToVttTimeString ms =
      ((if ms div 3600000 < 10 then L ''0'' else L '''') @ to_wstring (ms div 3600000))
      @ L '':'' @ ((if ms mod 3600000 div 60000 < 10 then L ''0'' else L '''') @ to_wstring (ms mod 3600000 div 60000))
      @ L '':'' @ ((if ms mod 3600000 mod 60000 div 1000 < 10 then L ''0'' else L '''')
      @ to_wstring (ms mod 3600000 mod 60000 div 1000))
      @ L ''.'' @ ((if ms mod 3600000 mod 60000 mod 1000 < 100 then L ''0'' else L '''')
      @ (if ms mod 3600000 mod 60000 mod 1000 < 10 then L ''0'' else L '''')
      @ to_wstring (ms mod 3600000 mod 60000 mod 1000))"
    unfolding msToVttTimeString_def Let_def h r1 m r2 s r3 by simp
  then show ?thesis
    unfolding p1 p2 p3 p4 .
qed

lemma iswdigit_plus: "iswdigit c \<longleftrightarrow> (\<exists>d<10. c = 48 + d)"
proof
  assume "iswdigit c"
  then have "c - 48 < 10" "c = 48 + (c - 48)" unfolding iswdigit_def by linarith+
  then show "\<exists>d<10. c = 48 + d" by blast
next
  assume "\<exists>d<10. c = 48 + d"
  then show "iswdigit c" by (auto simp: iswdigit_def)
qed

lemma stoi_2:
  "a < 10 \<Longrightarrow> b < 10 \<Longrightarrow> stoi [48 + a, 48 + b] = Inr (int (10 * a + b))"
  by (simp add: stoi_def iswspace_def iswdigit_def Let_def INT_MIN_def INT_MAX_def)

lemma stoi_3:
  "a < 10 \<Longrightarrow> b < 10 \<Longrightarrow> c < 10 \<Longrightarrow> stoi [48 + a, 48 + b, 48 + c] = Inr (int (100 * a + 10 * b + c))"
  by (simp add: stoi_def iswspace_def iswdigit_def Let_def INT_MIN_def INT_MAX_def)

lemma int32_id: "- 2147483648 \<le> x \<Longrightarrow> x < 2147483648 \<Longrightarrow> int32 x = x"
  by (simp add: int32_def)

lemma timeStringToMs_digits:
  assumes "h1 < 10" "h2 < 10" "m1 < 10" "m2 < 10" "s1 < 10" "s2 < 10" "f1 < 10" "f2 < 10" "f3 < 10"
  shows "timeStringToMs [48 + h1, 48 + h2, 58, 48 + m1, 48 + m2, 58, 48 + s1, 48 + s2, 44,
                         48 + f1, 48 + f2, 48 + f3]
     = Inr (int (10 * h1 + h2) * 3600000 + int (10 * m1 + m2) * 60000
            + int (10 * s1 + s2) * 1000 + int (100 * f1 + 10 * f2 + f3))"
proof -
  have "int32 (int (10 * h1 + h2) * 3600000 + int (10 * m1 + m2) * 60000
            + int (10 * s1 + s2) * 1000 + int (100 * f1 + 10 * f2 + f3))
      = int (10 * h1 + h2) * 3600000 + int (10 * m1 + m2) * 60000
            + int (10 * s1 + s2) * 1000 + int (100 * f1 + 10 * f2 + f3)"
    using assms by (intro int32_id) simp_all
  then show ?thesis
    using assms
    by (simp add: timeStringToMs_def substr_def substr_from_def bind_exc_def stoi_2 stoi_3)
qed

lemma zero_pad_2_digits: "a < 10 \<Longrightarrow> b < 10 \<Longrightarrow> zero_pad 2 (10 * a + b) = [48 + a, 48 + b]"
  by (cases "a = 0") (simp_all add: zero_pad_def dec_digits_1 dec_digits_2)

lemma div_10_digit: "c < 10 \<Longrightarrow> (10 * k + c) div 10 = (k::nat)"
  by simp

lemma mod_10_digit: "c < 10 \<Longrightarrow> (10 * k + c) mod 10 = (c::nat)"
  by simp

lemma zero_pad_3_digits:
  "a < 10 \<Longrightarrow> b < 10 \<Longrightarrow> c < 10 \<Longrightarrow> zero_pad 3 (100 * a + 10 * b + c) = [48 + a, 48 + b, 48 + c]"
proof -
  assume a: "a < 10" and b: "b < 10" and c: "c < 10"
  have n: "100 * a + 10 * b + c = 10 * (10 * a + b) + c" by simp
  have d10: "(10 * (10 * a + b) + c) div 10 = 10 * a + b" using c by (rule div_10_digit)
  have m10: "(10 * (10 * a + b) + c) mod 10 = c" using c by (rule mod_10_digit)
  have d1: "(10 * a + b) div 10 = a" using b by simp
  have m1: "(10 * a + b) mod 10 = b" using b by simp
  consider "a = 0" "b = 0" | "a = 0" "b \<noteq> 0" | "a \<noteq> 0" by blast
  then show ?thesis
  proof cases
    case 1
    then show ?thesis using c by (simp add: zero_pad_def dec_digits_1 numeral_3_eq_3)
  next
    case 2
    then show ?thesis using b c by (simp add: zero_pad_def dec_digits_2)
  next
    case 3
    then have "\<not> 10 * (10 * a + b) + c < 10" by simp
    then have "dec_digits (10 * (10 * a + b) + c) = dec_digits (10 * a + b) @ [48 + c]"
      by (subst dec_digits.simps) (simp only: d10 m10 if_False)
    moreover have "dec_digits (10 * a + b) = [48 + a, 48 + b]"
      using 3 a b dec_digits_2 [of "10 * a + b"] by (simp add: d1 m1)
    ultimately show ?thesis unfolding n by (simp add: zero_pad_def)
  qed
qed

lemma msToVttTimeString_digits:
  assumes "h1 < 10" "h2 < 10" "m1 < 6" "m2 < 10" "s1 < 6" "s2 < 10" "f1 < 10" "f2 < 10" "f3 < 10"
  shows "msToVttTimeString (int (10 * h1 + h2) * 3600000 + int (10 * m1 + m2) * 60000
            + int (10 * s1 + s2) * 1000 + int (100 * f1 + 10 * f2 + f3))
     = [48 + h1, 48 + h2, 58, 48 + m1, 48 + m2, 58, 48 + s1, 48 + s2, 46, 48 + f1, 48 + f2, 48 + f3]"
proof -
  define H where "H = int (10 * h1 + h2)"
  define M where "M = int (10 * m1 + m2)"
  define S where "S = int (10 * s1 + s2)"
  define F where "F = int (100 * f1 + 10 * f2 + f3)"
  note H_M_S_F_def = H_def M_def S_def F_def
  define v where "v = H * 3600000 + M * 60000 + S * 1000 + F"
  have bounds: "0 \<le> H" "0 \<le> M" "M < 60" "0 \<le> S" "S < 60" "0 \<le> F" "F < 1000"
    using assms by (simp_all add: H_M_S_F_def)
  have e1: "v = 3600000 * H + (M * 60000 + S * 1000 + F)"
    by (simp add: v_def)
  have b1: "0 \<le> M * 60000 + S * 1000 + F" "M * 60000 + S * 1000 + F < 3600000"
    using bounds by linarith+
  have d1: "v div 3600000 = H"
    using e1 b1 by (rule int_div_pos_eq)
  have r1: "v mod 3600000 = M * 60000 + S * 1000 + F"
    using e1 b1 by (rule int_mod_pos_eq)
  have e2: "M * 60000 + S * 1000 + F = 60000 * M + (S * 1000 + F)"
    by simp
  have b2: "0 \<le> S * 1000 + F" "S * 1000 + F < 60000"
    using bounds by linarith+
  have d2: "(M * 60000 + S * 1000 + F) div 60000 = M"
    using e2 b2 by (rule int_div_pos_eq)
  have r2: "(M * 60000 + S * 1000 + F) mod 60000 = S * 1000 + F"
    using e2 b2 by (rule int_mod_pos_eq)
  have e3: "S * 1000 + F = 1000 * S + F"
    by simp
  have d3: "(S * 1000 + F) div 1000 = S"
    using e3 bounds(6,7) by (rule int_div_pos_eq)
  have r3: "(S * 1000 + F) mod 1000 = F"
    using e3 bounds(6,7) by (rule int_mod_pos_eq)
  have "0 \<le> v" using bounds by (simp add: v_def)
  then have "msToVttTimeString v =
      zero_pad 2 (nat H) @ L '':'' @ zero_pad 2 (nat M) @ L '':'' @ zero_pad 2 (nat S) @ L ''.''
      @ zero_pad 3 (nat F)"
    by (simp only: msToVttTimeString_fields d1 r1 d2 r2 d3 r3)
  moreover have "zero_pad 2 (nat H) = [48 + h1, 48 + h2]"
    unfolding H_def nat_int using assms by (intro zero_pad_2_digits) simp_all
  moreover have "zero_pad 2 (nat M) = [48 + m1, 48 + m2]"
    unfolding M_def nat_int using assms by (intro zero_pad_2_digits) simp_all
  moreover have "zero_pad 2 (nat S) = [48 + s1, 48 + s2]"
    unfolding S_def nat_int using assms by (intro zero_pad_2_digits) simp_all
  moreover have "zero_pad 3 (nat F) = [48 + f1, 48 + f2, 48 + f3]"
    unfolding F_def nat_int using assms by (intro zero_pad_3_digits) simp_all
  ultimately show ?thesis
    by (simp add: v_def H_M_S_F_def L_simps)
qed

lemma rgxTime_chars:
  assumes "rgxTime t"
  shows "\<exists>a b c d e f g h i. t = [a, b, 58, c, d, 58, e, f, 44, g, h, i]
     \<and> iswdigit a \<and> iswdigit b \<and> iswdigit c \<and> iswdigit d \<and> iswdigit e \<and> iswdigit f
     \<and> iswdigit g \<and> iswdigit h \<and> iswdigit i"
  using assms by (auto elim!: rgxTime.elims(2))

lemma rgxTime_digits:
  assumes "rgxTime t"
  shows "\<exists>h1 h2 m1 m2 s1 s2 f1 f2 f3.
    t = [48 + h1, 48 + h2, 58, 48 + m1, 48 + m2, 58, 48 + s1, 48 + s2, 44, 48 + f1, 48 + f2, 48 + f3]
    \<and> h1 < 10 \<and> h2 < 10 \<and> m1 < 10 \<and> m2 < 10 \<and> s1 < 10 \<and> s2 < 10 \<and> f1 < 10 \<and> f2 < 10 \<and> f3 < 10"
proof -
  from rgxTime_chars [OF assms] obtain a b c d e f g h i where
    t: "t = [a, b, 58, c, d, 58, e, f, 44, g, h, i]"
    and dg: "iswdigit a" "iswdigit b" "iswdigit c" "iswdigit d" "iswdigit e" "iswdigit f"
      "iswdigit g" "iswdigit h" "iswdigit i"
    by blast
  from dg(1) obtain h1 where h1: "a = 48 + h1" "h1 < 10"
    unfolding iswdigit_plus by blast
  from dg(2) obtain h2 where h2: "b = 48 + h2" "h2 < 10"
    unfolding iswdigit_plus by blast
  from dg(3) obtain m1 where m1: "c = 48 + m1" "m1 < 10"
    unfolding iswdigit_plus by blast
  from dg(4) obtain m2 where m2: "d = 48 + m2" "m2 < 10"
    unfolding iswdigit_plus by blast
  from dg(5) obtain s1 where s1: "e = 48 + s1" "s1 < 10"
    unfolding iswdigit_plus by blast
  from dg(6) obtain s2 where s2: "f = 48 + s2" "s2 < 10"
    unfolding iswdigit_plus by blast
  from dg(7) obtain f1 where f1: "g = 48 + f1" "f1 < 10"
    unfolding iswdigit_plus by blast
  from dg(8) obtain f2 where f2: "h = 48 + f2" "f2 < 10"
    unfolding iswdigit_plus by blast
  from dg(9) obtain f3 where f3: "i = 48 + f3" "f3 < 10"
    unfolding iswdigit_plus by blast
  show ?thesis
    unfolding t h1(1) h2(1) m1(1) m2(1) s1(1) s2(1) f1(1) f2(1) f3(1)
    by (intro exI conjI, rule refl) (fact h1(2) h2(2) m1(2) m2(2) s1(2) s2(2) f1(2) f2(2) f3(2))+
qed

lemma time_value_bounds_int:
  fixes H M S F :: int
  assumes "0 \<le> H" "H \<le> 99" "0 \<le> M" "M \<le> 99" "0 \<le> S" "S \<le> 99" "0 \<le> F" "F \<le> 999"
  shows "0 \<le> H * 3600000 + M * 60000 + S * 1000 + F"
    and "H * 3600000 + M * 60000 + S * 1000 + F < 362440000"
  using assms by linarith+

lemma time_value_bounds:
  assumes "h1 < 10" "h2 < 10" "m1 < 10" "m2 < 10" "s1 < 10" "s2 < 10" "f1 < 10" "f2 < 10" "f3 < (10::nat)"
  shows "0 \<le> int (10 * h1 + h2) * 3600000 + int (10 * m1 + m2) * 60000
            + int (10 * s1 + s2) * 1000 + int (100 * f1 + 10 * f2 + f3)"
    and "int (10 * h1 + h2) * 3600000 + int (10 * m1 + m2) * 60000
            + int (10 * s1 + s2) * 1000 + int (100 * f1 + 10 * f2 + f3) < 362440000"
proof -
  have b: "0 \<le> int (10 * h1 + h2)" "int (10 * h1 + h2) \<le> 99"
    "0 \<le> int (10 * m1 + m2)" "int (10 * m1 + m2) \<le> 99"
    "0 \<le> int (10 * s1 + s2)" "int (10 * s1 + s2) \<le> 99"
    "0 \<le> int (100 * f1 + 10 * f2 + f3)" "int (100 * f1 + 10 * f2 + f3) \<le> 999"
    using assms by simp_all
  show "0 \<le> int (10 * h1 + h2) * 3600000 + int (10 * m1 + m2) * 60000
            + int (10 * s1 + s2) * 1000 + int (100 * f1 + 10 * f2 + f3)"
    using b by (rule time_value_bounds_int(1))
  show "int (10 * h1 + h2) * 3600000 + int (10 * m1 + m2) * 60000
            + int (10 * s1 + s2) * 1000 + int (100 * f1 + 10 * f2 + f3) < 362440000"
    using b by (rule time_value_bounds_int(2))
qed

lemma round_trip_fields:
  assumes "rgxTime t" "time_field t 3 2 < 60" "time_field t 6 2 < 60"
  shows "\<exists>ms. timeStringToMs t = Inr ms \<and> msToVttTimeString ms = t[8 := 46]"
proof -
  from rgxTime_digits [OF assms(1)] obtain h1 h2 m1 m2 s1 s2 f1 f2 f3 where
    t: "t = [48 + h1, 48 + h2, 58, 48 + m1, 48 + m2, 58, 48 + s1, 48 + s2, 44, 48 + f1, 48 + f2, 48 + f3]"
    and d: "h1 < 10" "h2 < 10" "m1 < 10" "m2 < 10" "s1 < 10" "s2 < 10" "f1 < 10" "f2 < 10" "f3 < 10"
    by blast
  have "time_field t 3 2 = int (10 * m1 + m2)" "time_field t 6 2 = int (10 * s1 + s2)"
    unfolding time_field_def t by simp_all
  with assms(2,3) have "10 * m1 + m2 < 60" "10 * s1 + s2 < 60"
    by simp_all
  then have m: "m1 < 6" and s: "s1 < 6" by simp_all
  define ms where "ms = int (10 * h1 + h2) * 3600000 + int (10 * m1 + m2) * 60000
            + int (10 * s1 + s2) * 1000 + int (100 * f1 + 10 * f2 + f3)"
  have p: "timeStringToMs t = Inr ms"
    unfolding t ms_def using d by (rule timeStringToMs_digits)
  have u: "t[8 := 46] = [48 + h1, 48 + h2, 58, 48 + m1, 48 + m2, 58, 48 + s1, 48 + s2, 46,
      48 + f1, 48 + f2, 48 + f3]"
    unfolding t by simp
  have "msToVttTimeString ms = t[8 := 46]"
    unfolding u ms_def using d(1,2) m d(4) s d(6-9) by (rule msToVttTimeString_digits)
  with p show ?thesis by (intro exI [of _ ms] conjI)
qed

lemma timeStringToMs_rgxTime:
  assumes "rgxTime t"
  shows "\<exists>ms. timeStringToMs t = Inr ms \<and> 0 \<le> ms \<and> ms < 362440000"
proof -
  from rgxTime_digits [OF assms(1)] obtain h1 h2 m1 m2 s1 s2 f1 f2 f3 where
    t: "t = [48 + h1, 48 + h2, 58, 48 + m1, 48 + m2, 58, 48 + s1, 48 + s2, 44, 48 + f1, 48 + f2, 48 + f3]"
    and d: "h1 < 10" "h2 < 10" "m1 < 10" "m2 < 10" "s1 < 10" "s2 < 10" "f1 < 10" "f2 < 10" "f3 < 10"
    by blast
  define ms where "ms = int (10 * h1 + h2) * 3600000 + int (10 * m1 + m2) * 60000
            + int (10 * s1 + s2) * 1000 + int (100 * f1 + 10 * f2 + f3)"
  have p: "timeStringToMs t = Inr ms"
    unfolding t ms_def using d by (rule timeStringToMs_digits)
  have "0 \<le> ms" "ms < 362440000"
    unfolding ms_def using d by (rule time_value_bounds)+
  with p show ?thesis by (intro exI [of _ ms] conjI)
qed

text \<open>
  C1, as amended. For every string of the form \<open>HH:MM:SS,mmm\<close> (two digits each for
  hours, minutes and seconds, three for milliseconds) whose minutes field and seconds field
  are below 60, \<open>timeStringToMs\<close> returns a value, and \<open>msToVttTimeString\<close> of that
  value is the same string with the comma replaced by a period.
\<close>

theorem timestamp_round_trip:
  assumes "rgxTime t" and "time_field t 3 2 < 60" and "time_field t 6 2 < 60"
  shows "\<exists>ms. timeStringToMs t = Inr ms \<and> msToVttTimeString ms = t[8 := 46]"
  using assms by (rule round_trip_fields)

theorem timestamp_round_trip_witness:
  "rgxTime (L ''12:34:56,789'') \<and> time_field (L ''12:34:56,789'') 3 2 < 60
   \<and> time_field (L ''12:34:56,789'') 6 2 < 60
   \<and> (\<exists>ms. timeStringToMs (L ''12:34:56,789'') = Inr ms
         \<and> msToVttTimeString ms = L ''12:34:56.789'')"
proof -
  have a: "rgxTime (L ''12:34:56,789'')" by code_simp
  have b: "time_field (L ''12:34:56,789'') 3 2 < 60" by code_simp
  have c: "time_field (L ''12:34:56,789'') 6 2 < 60" by code_simp
  have d: "(L ''12:34:56,789'')[8 := 46] = L ''12:34:56.789''" by code_simp
  from timestamp_round_trip [OF a b c] have
    "\<exists>ms. timeStringToMs (L ''12:34:56,789'') = Inr ms \<and> msToVttTimeString ms = L ''12:34:56.789''"
    unfolding d .
  with a b c show ?thesis by (intro conjI)
qed

text \<open>
  The claim as it is written fails where a field is 60 or more: \<open>00:60:00,000\<close> has the
  form, encodes one hour, which is below 100 hours, and comes back as \<open>01:00:00.000\<close>.
\<close>

theorem timestamp_round_trip_counterexample:
  "rgxTime (L ''00:60:00,000'')
   \<and> timeStringToMs (L ''00:60:00,000'') = Inr 3600000
   \<and> (3600000 :: int) < 100 * 3600000
   \<and> msToVttTimeString 3600000 = L ''01:00:00.000''
   \<and> L ''01:00:00.000'' \<noteq> (L ''00:60:00,000'')[8 := 46]"
  by code_simp

lemma length_dec_digits_le2: "n < 100 \<Longrightarrow> length (dec_digits n) \<le> 2"
  by (cases "n < 10") (simp_all add: dec_digits_1 dec_digits_2)

lemma length_dec_digits_le3: "n < 1000 \<Longrightarrow> length (dec_digits n) \<le> 3"
proof -
  assume n: "n < 1000"
  consider "n < 10" | "10 \<le> n" "n < 100" | "100 \<le> n" by linarith
  then show ?thesis using n by cases (simp_all add: dec_digits_1 dec_digits_2 dec_digits_3)
qed

lemma length_zero_pad: "length (zero_pad w n) = max w (length (dec_digits n))"
  by (simp add: zero_pad_def)

text \<open>
  C6. For every non-negative millisecond value, \<open>msToVttTimeString\<close> splits it into
  hours, minutes, seconds and milliseconds by integer division and remainder with the
  bases 3600000, 60000 and 1000, and writes the fields zero-padded to width 2 (hours,
  minutes, seconds) and 3 (milliseconds), joined as \<open>HH:MM:SS.mmm\<close>. The minutes and
  seconds fields are always 2 characters and the milliseconds field 3; the hours field is
  2 characters up to 99 hours and, beyond, is the untruncated number with more than 2 digits.
\<close>

theorem msToVttTimeString_zero_padded:
  assumes "0 \<le> ms"
  shows "(let hours = ms div 3600000; r1 = ms mod 3600000;
              minutes = r1 div 60000; r2 = r1 mod 60000;
              seconds = r2 div 1000; millis = r2 mod 1000
          in msToVttTimeString ms =
               zero_pad 2 (nat hours) @ L '':'' @ zero_pad 2 (nat minutes) @ L '':''
               @ zero_pad 2 (nat seconds) @ L ''.'' @ zero_pad 3 (nat millis)
             \<and> length (zero_pad 2 (nat minutes)) = 2
             \<and> length (zero_pad 2 (nat seconds)) = 2
             \<and> length (zero_pad 3 (nat millis)) = 3
             \<and> (hours \<le> 99 \<longrightarrow> length (zero_pad 2 (nat hours)) = 2)
             \<and> (99 < hours \<longrightarrow> zero_pad 2 (nat hours) = dec_digits (nat hours)
                   \<and> 2 < length (zero_pad 2 (nat hours))))"
proof -
  have "nat (ms mod 3600000 div 60000) < 100"
    by simp
  then have "length (dec_digits (nat (ms mod 3600000 div 60000))) \<le> 2"
    by (rule length_dec_digits_le2)
  then have m: "length (zero_pad 2 (nat (ms mod 3600000 div 60000))) = 2"
    unfolding length_zero_pad by (rule max_absorb1)
  have "nat (ms mod 3600000 mod 60000 div 1000) < 100"
    by simp
  then have "length (dec_digits (nat (ms mod 3600000 mod 60000 div 1000))) \<le> 2"
    by (rule length_dec_digits_le2)
  then have s: "length (zero_pad 2 (nat (ms mod 3600000 mod 60000 div 1000))) = 2"
    unfolding length_zero_pad by (rule max_absorb1)
  have "nat (ms mod 3600000 mod 60000 mod 1000) < 1000"
    by simp
  then have "length (dec_digits (nat (ms mod 3600000 mod 60000 mod 1000))) \<le> 3"
    by (rule length_dec_digits_le3)
  then have f: "length (zero_pad 3 (nat (ms mod 3600000 mod 60000 mod 1000))) = 3"
    unfolding length_zero_pad by (rule max_absorb1)
  have h1: "length (zero_pad 2 (nat (ms div 3600000))) = 2" if "ms div 3600000 \<le> 99"
  proof -
    from that have "nat (ms div 3600000) < 100" by simp
    then have "length (dec_digits (nat (ms div 3600000))) \<le> 2"
      by (rule length_dec_digits_le2)
    then show ?thesis
      unfolding length_zero_pad by (rule max_absorb1)
  qed
  have h2: "zero_pad 2 (nat (ms div 3600000)) = dec_digits (nat (ms div 3600000))
      \<and> 2 < length (zero_pad 2 (nat (ms div 3600000)))" if "99 < ms div 3600000"
  proof -
    from that have "100 \<le> nat (ms div 3600000)" by simp
    then have "3 \<le> length (dec_digits (nat (ms div 3600000)))"
      by (rule length_dec_digits_ge)
    then show ?thesis
      by (simp add: zero_pad_def)
  qed
  from msToVttTimeString_fields [OF assms] m s f h1 h2 show ?thesis
    unfolding Let_def by blast
qed

theorem msToVttTimeString_zero_padded_witness:
  "(0::int) \<le> 5025678 \<and> msToVttTimeString 5025678 = L ''01:23:45.678''
   \<and> (5025678::int) div 3600000 \<le> 99
   \<and> length (zero_pad 2 (nat (5025678 div 3600000))) = 2
   \<and> (0::int) \<le> 360061001 \<and> msToVttTimeString 360061001 = L ''100:01:01.001''
   \<and> 99 < (360061001::int) div 3600000
   \<and> zero_pad 2 (nat (360061001 div 3600000)) = dec_digits (nat (360061001 div 3600000))"
proof -
  have a: "(0::int) \<le> 5025678" by simp
  have b: "(0::int) \<le> 360061001" by simp
  have c: "(5025678::int) div 3600000 \<le> 99" by simp
  have d: "99 < (360061001::int) div 3600000" by simp
  note small = msToVttTimeString_zero_padded [OF a, unfolded Let_def]
  note large = msToVttTimeString_zero_padded [OF b, unfolded Let_def]
  have e: "zero_pad 2 (nat (5025678 div 3600000)) @ L '':''
      @ zero_pad 2 (nat (5025678 mod 3600000 div 60000)) @ L '':''
      @ zero_pad 2 (nat (5025678 mod 3600000 mod 60000 div 1000)) @ L ''.''
      @ zero_pad 3 (nat (5025678 mod 3600000 mod 60000 mod 1000)) = L ''01:23:45.678''"
    by code_simp
  have f: "zero_pad 2 (nat (360061001 div 3600000)) @ L '':''
      @ zero_pad 2 (nat (360061001 mod 3600000 div 60000)) @ L '':''
      @ zero_pad 2 (nat (360061001 mod 3600000 mod 60000 div 1000)) @ L ''.''
      @ zero_pad 3 (nat (360061001 mod 3600000 mod 60000 mod 1000)) = L ''100:01:01.001''"
    by code_simp
  from small have "msToVttTimeString 5025678 = L ''01:23:45.678''"
    unfolding e by (rule conjunct1)
  moreover from small c have "length (zero_pad 2 (nat (5025678 div 3600000))) = 2"
    by blast
  moreover from large have "msToVttTimeString 360061001 = L ''100:01:01.001''"
    unfolding f by (rule conjunct1)
  moreover from large d
  have "zero_pad 2 (nat (360061001 div 3600000)) = dec_digits (nat (360061001 div 3600000))"
    by blast
  ultimately show ?thesis using a b c d by (intro conjI)
qed

section \<open>Properties of the conversion of a line\<close>

lemma wstr_replace_comma:
  "wstr_replace str [44] [46] = map (\<lambda>c. if c = 44 then 46 else c) str"
proof (induction str)
  case Nil
  show ?case by (subst wstr_replace.simps) simp
next
  case (Cons c str)
  then show ?case by (subst wstr_replace.simps) simp
qed

lemma rgxTimeFrame_Some:
  assumes "rgxTimeFrame sLine = Some (t1, t2)"
  shows "rgxTime t1" and "rgxTime t2" and "sLine = t1 @ L '' --> '' @ t2"
proof -
  from assms have l: "length sLine = 29" and a: "rgxTime (take 12 sLine)"
    and b: "take 5 (drop 12 sLine) = L '' --> ''" and c: "rgxTime (drop 17 sLine)"
    and t1: "t1 = take 12 sLine" and t2: "t2 = drop 17 sLine"
    by (simp_all add: rgxTimeFrame_def split: if_splits)
  from a t1 show "rgxTime t1" by simp
  from c t2 show "rgxTime t2" by simp
  have "sLine = take 12 sLine @ drop 12 sLine"
    by (rule append_take_drop_id [symmetric])
  also have "drop 12 sLine = take 5 (drop 12 sLine) @ drop 5 (drop 12 sLine)"
    by (rule append_take_drop_id [symmetric])
  also have "drop 5 (drop 12 sLine) = drop 17 sLine" by simp
  finally show "sLine = t1 @ L '' --> '' @ t2" unfolding b t1 t2 .
qed

lemma rgxTime_replace_comma:
  assumes "rgxTime t"
  shows "map (\<lambda>c. if c = 44 then 46 else c) t = t[8 := 46]"
proof -
  from rgxTime_digits [OF assms] obtain h1 h2 m1 m2 s1 s2 f1 f2 f3 where
    t: "t = [48 + h1, 48 + h2, 58, 48 + m1, 48 + m2, 58, 48 + s1, 48 + s2, 44, 48 + f1, 48 + f2, 48 + f3]"
    by blast
  show ?thesis unfolding t by simp
qed

lemma timeFrameReplace_matched:
  assumes "rgxTimeFrame sLine = Some (t1, t2)"
  shows "timeFrameReplace sLine = t1[8 := 46] @ L '' --> '' @ t2[8 := 46]"
proof -
  note m = rgxTimeFrame_Some [OF assms]
  have "timeFrameReplace sLine = map (\<lambda>c. if c = 44 then 46 else c) (t1 @ L '' --> '' @ t2)"
    unfolding timeFrameReplace_def m(3) [symmetric] by (simp add: L_simps wstr_replace_comma)
  also have "\<dots> = t1[8 := 46] @ L '' --> '' @ t2[8 := 46]"
    by (simp add: rgxTime_replace_comma [OF m(1)] rgxTime_replace_comma [OF m(2)] L_simps)
  finally show ?thesis .
qed

lemma timeFrameOffset_no_overflow:
  assumes "timeStringToMs t1 = Inr start_ms" and "timeStringToMs t2 = Inr end_ms"
    and "fits_int (start_ms + offs)" and "fits_int (end_ms + offs)"
  shows "timeFrameOffset offs (t1, t2)
     = Inr (msToVttTimeString (max 0 (start_ms + offs)) @ L '' --> ''
            @ msToVttTimeString (max 0 (end_ms + offs)))"
proof -
  have "int32 (start_ms + offs) = start_ms + offs" "int32 (end_ms + offs) = end_ms + offs"
    using assms(3,4) by (simp_all add: fits_int_def INT_MIN_def INT_MAX_def int32_id)
  then show ?thesis
    using assms(1,2) by (simp add: timeFrameOffset_def bind_exc_def Let_def max_def)
qed

lemma rgxTimeFrame_not_number:
  assumes "rgxTimeFrame sLine = Some (t1, t2)"
  shows "\<not> rgxDialogNumber sLine"
proof -
  note m = rgxTimeFrame_Some [OF assms]
  from rgxTime_digits [OF m(1)] obtain h1 h2 r where "t1 = (48 + h1) # (48 + h2) # 58 # r"
    by blast
  then show ?thesis
    unfolding m(3) by (simp add: rgxDialogNumber_def iswdigit_def)
qed

lemma zero_offset_paths:
  assumes "rgxTimeFrame sLine = Some (t1, t2)"
    and "time_field t1 3 2 < 60" and "time_field t1 6 2 < 60"
    and "time_field t2 3 2 < 60" and "time_field t2 6 2 < 60"
  shows "timeFrameOffset 0 (t1, t2) = Inr (timeFrameReplace sLine)"
proof -
  note m = rgxTimeFrame_Some [OF assms(1)]
  from round_trip_fields [OF m(1) assms(2,3)] obtain ms1 where
    p1: "timeStringToMs t1 = Inr ms1" and f1: "msToVttTimeString ms1 = t1[8 := 46]"
    by blast
  from round_trip_fields [OF m(2) assms(4,5)] obtain ms2 where
    p2: "timeStringToMs t2 = Inr ms2" and f2: "msToVttTimeString ms2 = t2[8 := 46]"
    by blast
  from timeStringToMs_rgxTime [OF m(1)] p1 have b1: "0 \<le> ms1" "ms1 < 362440000"
    by auto
  from timeStringToMs_rgxTime [OF m(2)] p2 have b2: "0 \<le> ms2" "ms2 < 362440000"
    by auto
  have "fits_int (ms1 + 0)" "fits_int (ms2 + 0)"
    using b1 b2 by (simp_all add: fits_int_def INT_MIN_def INT_MAX_def)
  from timeFrameOffset_no_overflow [OF p1 p2 this]
  have "timeFrameOffset 0 (t1, t2) = Inr (msToVttTimeString ms1 @ L '' --> '' @ msToVttTimeString ms2)"
    using b1 b2 by (simp add: max_def)
  then show ?thesis
    unfolding f1 f2 timeFrameReplace_matched [OF assms(1)] .
qed

lemma clamp_keeps_order:
  "start_ms \<le> end_ms \<Longrightarrow> max 0 (start_ms + offs) \<le> max (0::int) (end_ms + offs)"
  by simp

text \<open>
  C2, as amended. For a timecode line and a non-zero offset, and provided that the two
  sums \<open>start_ms + offsetMs\<close> and \<open>end_ms + offsetMs\<close> are \<open>int\<close> values (no overflow), the
  line written is made of the new start time \<open>start_ms + offsetMs\<close> and the new end time
  \<open>end_ms + offsetMs\<close>, each clamped below at zero on its own. The offset -1000 takes
  \<open>00:00:00,500\<close> to \<open>00:00:00.000\<close> and leaves the other endpoint, \<open>00:00:02,000\<close>, at
  \<open>00:00:01.000\<close>. The order of the endpoints is not corrected: a line whose start is
  after its end can be written with its start after its end; without overflow the
  clamping never puts the start after the end of a line whose start is not after its end.
\<close>

theorem offset_clamped_per_endpoint:
  "(rgxTimeFrame sLine = Some (t1, t2) \<and> timeOffsetMs c \<noteq> 0 \<longrightarrow>
      (\<exists>start_ms end_ms. timeStringToMs t1 = Inr start_ms \<and> timeStringToMs t2 = Inr end_ms
         \<and> (fits_int (start_ms + timeOffsetMs c) \<and> fits_int (end_ms + timeOffsetMs c) \<longrightarrow>
              convertLine c sLine
                = Inr (msToVttTimeString (max 0 (start_ms + timeOffsetMs c)) @ L '' --> ''
                       @ msToVttTimeString (max 0 (end_ms + timeOffsetMs c)) @ endl)
              \<and> (start_ms \<le> end_ms \<longrightarrow>
                    max 0 (start_ms + timeOffsetMs c) \<le> max 0 (end_ms + timeOffsetMs c)))))
   \<and> convertLine \<lparr>timeOffsetMs = - 1000, outputDir = [], quiet = False\<rparr>
         (L ''00:00:00,500 --> 00:00:02,000'') = Inr (L ''00:00:00.000 --> 00:00:01.000'' @ endl)
   \<and> convertLine \<lparr>timeOffsetMs = - 1000, outputDir = [], quiet = False\<rparr>
         (L ''00:00:02,000 --> 00:00:00,500'') = Inr (L ''00:00:01.000 --> 00:00:00.000'' @ endl)"
proof (intro conjI impI)
  assume a: "rgxTimeFrame sLine = Some (t1, t2) \<and> timeOffsetMs c \<noteq> 0"
  note m = rgxTimeFrame_Some [OF a [THEN conjunct1]]
  from timeStringToMs_rgxTime [OF m(1)] obtain start_ms where p1: "timeStringToMs t1 = Inr start_ms"
    by blast
  from timeStringToMs_rgxTime [OF m(2)] obtain end_ms where p2: "timeStringToMs t2 = Inr end_ms"
    by blast
  have w: "convertLine c sLine
      = Inr (msToVttTimeString (max 0 (start_ms + timeOffsetMs c)) @ L '' --> ''
             @ msToVttTimeString (max 0 (end_ms + timeOffsetMs c)) @ endl)"
    if "fits_int (start_ms + timeOffsetMs c) \<and> fits_int (end_ms + timeOffsetMs c)"
    using a rgxTimeFrame_not_number [OF a [THEN conjunct1]]
      timeFrameOffset_no_overflow [OF p1 p2 that [THEN conjunct1] that [THEN conjunct2]]
    by (simp add: convertLine_def bind_exc_def)
  have o: "start_ms \<le> end_ms \<longrightarrow>
      max 0 (start_ms + timeOffsetMs c) \<le> max 0 (end_ms + timeOffsetMs c)"
    using clamp_keeps_order [of start_ms end_ms "timeOffsetMs c"] by blast
  from p1 p2 w o
  show "\<exists>start_ms end_ms. timeStringToMs t1 = Inr start_ms \<and> timeStringToMs t2 = Inr end_ms
         \<and> (fits_int (start_ms + timeOffsetMs c) \<and> fits_int (end_ms + timeOffsetMs c) \<longrightarrow>
              convertLine c sLine
                = Inr (msToVttTimeString (max 0 (start_ms + timeOffsetMs c)) @ L '' --> ''
                       @ msToVttTimeString (max 0 (end_ms + timeOffsetMs c)) @ endl)
              \<and> (start_ms \<le> end_ms \<longrightarrow>
                    max 0 (start_ms + timeOffsetMs c) \<le> max 0 (end_ms + timeOffsetMs c)))"
    by blast
next
  show "convertLine \<lparr>timeOffsetMs = - 1000, outputDir = [], quiet = False\<rparr>
         (L ''00:00:00,500 --> 00:00:02,000'') = Inr (L ''00:00:00.000 --> 00:00:01.000'' @ endl)"
    by code_simp
next
  show "convertLine \<lparr>timeOffsetMs = - 1000, outputDir = [], quiet = False\<rparr>
         (L ''00:00:02,000 --> 00:00:00,500'') = Inr (L ''00:00:01.000 --> 00:00:00.000'' @ endl)"
    by code_simp
qed

theorem offset_clamped_per_endpoint_witness:
  "rgxTimeFrame (L ''00:00:01,000 --> 00:00:03,250'')
     = Some (L ''00:00:01,000'', L ''00:00:03,250'')
   \<and> timeOffsetMs \<lparr>timeOffsetMs = - 2000, outputDir = [], quiet = False\<rparr> \<noteq> 0
   \<and> timeStringToMs (L ''00:00:01,000'') = Inr 1000
   \<and> timeStringToMs (L ''00:00:03,250'') = Inr 3250
   \<and> fits_int (1000 + - 2000) \<and> fits_int (3250 + - 2000)
   \<and> convertLine \<lparr>timeOffsetMs = - 2000, outputDir = [], quiet = False\<rparr>
         (L ''00:00:01,000 --> 00:00:03,250'')
       = Inr (msToVttTimeString (max 0 (1000 + - 2000)) @ L '' --> ''
              @ msToVttTimeString (max 0 (3250 + - 2000)) @ endl)
   \<and> (1000::int) \<le> 3250 \<and> max 0 (1000 + - 2000) \<le> max (0::int) (3250 + - 2000)"
proof -
  let ?c = "\<lparr>timeOffsetMs = - 2000, outputDir = [], quiet = False\<rparr>"
  have a: "rgxTimeFrame (L ''00:00:01,000 --> 00:00:03,250'')
     = Some (L ''00:00:01,000'', L ''00:00:03,250'')"
    by code_simp
  have b: "timeOffsetMs ?c \<noteq> 0" by simp
  have p1: "timeStringToMs (L ''00:00:01,000'') = Inr 1000" by code_simp
  have p2: "timeStringToMs (L ''00:00:03,250'') = Inr 3250" by code_simp
  have f: "fits_int (1000 + - 2000)" "fits_int (3250 + - 2000)" by code_simp+
  have le: "(1000::int) \<le> 3250" by simp
  from offset_clamped_per_endpoint [of "L ''00:00:01,000 --> 00:00:03,250''"
      "L ''00:00:01,000''" "L ''00:00:03,250''" ?c] a b
  obtain start_ms end_ms where
    q1: "timeStringToMs (L ''00:00:01,000'') = Inr start_ms"
    and q2: "timeStringToMs (L ''00:00:03,250'') = Inr end_ms"
    and r: "fits_int (start_ms + timeOffsetMs ?c) \<and> fits_int (end_ms + timeOffsetMs ?c) \<longrightarrow>
       convertLine ?c (L ''00:00:01,000 --> 00:00:03,250'')
         = Inr (msToVttTimeString (max 0 (start_ms + timeOffsetMs ?c)) @ L '' --> ''
                @ msToVttTimeString (max 0 (end_ms + timeOffsetMs ?c)) @ endl)
       \<and> (start_ms \<le> end_ms \<longrightarrow>
             max 0 (start_ms + timeOffsetMs ?c) \<le> max 0 (end_ms + timeOffsetMs ?c))"
    by blast
  from p1 q1 have s: "start_ms = 1000" by simp
  from p2 q2 have e: "end_ms = 3250" by simp
  have t: "timeOffsetMs ?c = - 2000" by simp
  note r' = r [unfolded s e t]
  from r' f have x: "convertLine ?c (L ''00:00:01,000 --> 00:00:03,250'')
       = Inr (msToVttTimeString (max 0 (1000 + - 2000)) @ L '' --> ''
              @ msToVttTimeString (max 0 (3250 + - 2000)) @ endl)"
    by blast
  from r' f le have y: "max 0 (1000 + - 2000) \<le> max (0::int) (3250 + - 2000)"
    by blast
  from a b p1 p2 f x le y show ?thesis by (intro conjI)
qed

text \<open>
  The claim as it is written, for every offset, fails where a sum overflows: with the
  offset 2147483647 the end \<open>00:00:00,001\<close> of an ordered line wraps to a negative
  \<open>int\<close> and is floored to \<open>00:00:00.000\<close>, where \<open>end_ms + offsetMs\<close> clamped at zero
  is \<open>596:31:23.648\<close>.
\<close>

theorem offset_overflow_counterexample:
  "rgxTimeFrame (L ''00:00:00,000 --> 00:00:00,001'')
     = Some (L ''00:00:00,000'', L ''00:00:00,001'')
   \<and> timeStringToMs (L ''00:00:00,000'') = Inr 0
   \<and> timeStringToMs (L ''00:00:00,001'') = Inr 1
   \<and> convertLine \<lparr>timeOffsetMs = 2147483647, outputDir = [], quiet = False\<rparr>
         (L ''00:00:00,000 --> 00:00:00,001'')
       = Inr (L ''596:31:23.647 --> 00:00:00.000'' @ endl)
   \<and> msToVttTimeString (max 0 (1 + 2147483647)) = L ''596:31:23.648''
   \<and> convertLine \<lparr>timeOffsetMs = 2147483647, outputDir = [], quiet = False\<rparr>
         (L ''00:00:00,000 --> 00:00:00,001'')
       \<noteq> Inr (msToVttTimeString (max 0 (0 + 2147483647)) @ L '' --> ''
              @ msToVttTimeString (max 0 (1 + 2147483647)) @ endl)"
  by code_simp

text \<open>
  C3, as amended. For every line that matches the timecode pattern and whose minutes and
  seconds fields, in both timestamps, are below 60, the replacement of the commas by
  periods gives the same text as the offset computation (parse, add, clamp, format)
  run with the offset 0.
\<close>

theorem zero_offset_fast_path_agrees:
  assumes "rgxTimeFrame sLine = Some (t1, t2)"
    and "time_field t1 3 2 < 60" and "time_field t1 6 2 < 60"
    and "time_field t2 3 2 < 60" and "time_field t2 6 2 < 60"
  shows "timeFrameOffset 0 (t1, t2) = Inr (timeFrameReplace sLine)"
  using assms by (rule zero_offset_paths)

theorem zero_offset_fast_path_agrees_witness:
  "rgxTimeFrame (L ''00:00:01,000 --> 00:00:03,250'')
     = Some (L ''00:00:01,000'', L ''00:00:03,250'')
   \<and> time_field (L ''00:00:01,000'') 3 2 < 60 \<and> time_field (L ''00:00:01,000'') 6 2 < 60
   \<and> time_field (L ''00:00:03,250'') 3 2 < 60 \<and> time_field (L ''00:00:03,250'') 6 2 < 60
   \<and> timeFrameOffset 0 (L ''00:00:01,000'', L ''00:00:03,250'')
       = Inr (timeFrameReplace (L ''00:00:01,000 --> 00:00:03,250''))"
proof -
  have a: "rgxTimeFrame (L ''00:00:01,000 --> 00:00:03,250'')
     = Some (L ''00:00:01,000'', L ''00:00:03,250'')"
    by code_simp
  have b: "time_field (L ''00:00:01,000'') 3 2 < 60" by code_simp
  have c: "time_field (L ''00:00:01,000'') 6 2 < 60" by code_simp
  have d: "time_field (L ''00:00:03,250'') 3 2 < 60" by code_simp
  have e: "time_field (L ''00:00:03,250'') 6 2 < 60" by code_simp
  from zero_offset_fast_path_agrees [OF a b c d e] a b c d e show ?thesis
    by (intro conjI)
qed

text \<open>
  The claim as it is written fails on a line that matches the pattern with a field of 60
  or more: the replacement keeps \<open>00:60:00\<close>, the offset computation writes \<open>01:00:00\<close>.
\<close>

theorem zero_offset_fast_path_counterexample:
  "rgxTimeFrame (L ''00:60:00,000 --> 00:61:00,000'')
     = Some (L ''00:60:00,000'', L ''00:61:00,000'')
   \<and> timeFrameOffset 0 (L ''00:60:00,000'', L ''00:61:00,000'')
       = Inr (L ''01:00:00.000 --> 01:01:00.000'')
   \<and> timeFrameReplace (L ''00:60:00,000 --> 00:61:00,000'') = L ''00:60:00.000 --> 00:61:00.000''
   \<and> timeFrameOffset 0 (L ''00:60:00,000'', L ''00:61:00,000'')
       \<noteq> Inr (timeFrameReplace (L ''00:60:00,000 --> 00:61:00,000''))"
  by code_simp

section \<open>Properties of the conversion of a file\<close>

lemma convertLine_written:
  "convertLine c sLine = Inr w \<Longrightarrow> \<not> rgxDialogNumber sLine \<Longrightarrow> w \<noteq> []"
  by (auto simp: convertLine_def bind_exc_def endl_def split: option.splits if_splits sum.splits)

lemma htmlEncodeUtf8_ascii: "\<forall>c \<in> set str. c < 160 \<Longrightarrow> htmlEncodeUtf8 str = str"
  by (rule htmlEncodeUtf8_fixed) auto

lemma convertLine_other:
  "\<not> rgxDialogNumber sLine \<Longrightarrow> rgxTimeFrame sLine = None
     \<Longrightarrow> convertLine c sLine = Inr (htmlEncodeUtf8 sLine @ endl)"
  by (simp add: convertLine_def)

text \<open>
  C4. The index lines are found by a match of the whole line: a line is written to no
  output exactly when it consists of one or more decimal digits and of nothing else.
  Every line that is not such a line and is not a timecode line goes through the HTML
  encoding and is written, encoded, with its line end. The line \<open>42\<close> is dropped; the
  line \<open>42 dialogue\<close>, which only starts with digits, is encoded and written, and so is
  the line \<open>42\<close>, space, code point 233, as \<open>42 &#233;\<close>.
\<close>

theorem index_line_whole_match:
  "(convertLine c sLine = Inr [] \<longleftrightarrow> sLine \<noteq> [] \<and> list_all iswdigit sLine)
   \<and> (\<not> (sLine \<noteq> [] \<and> list_all iswdigit sLine) \<and> rgxTimeFrame sLine = None \<longrightarrow>
         convertLine c sLine = Inr (htmlEncodeUtf8 sLine @ endl))
   \<and> convertLine c (L ''42'') = Inr []
   \<and> outfile (convertFile c filepath \<lparr>in_stream = Inr [L ''42''], out_opens = True\<rparr>)
       = Some (L ''WEBVTT'' @ endl @ endl)
   \<and> convertLine c (L ''42 dialogue'') = Inr (htmlEncodeUtf8 (L ''42 dialogue'') @ endl)
   \<and> htmlEncodeUtf8 (L ''42 dialogue'') = L ''42 dialogue''
   \<and> outfile (convertFile c filepath \<lparr>in_stream = Inr [L ''42 dialogue''], out_opens = True\<rparr>)
       = Some (L ''WEBVTT'' @ endl @ endl @ L ''42 dialogue'' @ endl)
   \<and> convertLine c [52, 50, 32, 233] = Inr (L ''42 &#233;'' @ endl)
   \<and> outfile (convertFile c filepath \<lparr>in_stream = Inr [[52, 50, 32, 233]], out_opens = True\<rparr>)
       = Some (L ''WEBVTT'' @ endl @ endl @ L ''42 &#233;'' @ endl)"
proof -
  have a: "convertLine c sLine = Inr [] \<longleftrightarrow> sLine \<noteq> [] \<and> list_all iswdigit sLine"
  proof
    assume "convertLine c sLine = Inr []"
    with convertLine_written [of c sLine "[]"] have "rgxDialogNumber sLine" by blast
    then show "sLine \<noteq> [] \<and> list_all iswdigit sLine" by (simp add: rgxDialogNumber_def)
  next
    assume "sLine \<noteq> [] \<and> list_all iswdigit sLine"
    then show "convertLine c sLine = Inr []" by (simp add: convertLine_def rgxDialogNumber_def)
  qed
  have g: "\<not> (sLine \<noteq> [] \<and> list_all iswdigit sLine) \<and> rgxTimeFrame sLine = None \<longrightarrow>
         convertLine c sLine = Inr (htmlEncodeUtf8 sLine @ endl)"
    using convertLine_other [of sLine c] unfolding rgxDialogNumber_def by blast
  have b: "convertLine c (L ''42'') = Inr []"
    by (simp add: convertLine_def rgxDialogNumber_def L_simps iswdigit_def)
  have d: "convertLine c (L ''42 dialogue'') = Inr (htmlEncodeUtf8 (L ''42 dialogue'') @ endl)"
    by (rule convertLine_other) (simp_all add: rgxDialogNumber_def rgxTimeFrame_def L_simps iswdigit_def)
  have e: "htmlEncodeUtf8 (L ''42 dialogue'') = L ''42 dialogue''"
    by (rule htmlEncodeUtf8_ascii) (simp add: L_simps)
  have h: "htmlEncodeUtf8 [52, 50, 32, 233] = L ''42 &#233;''"
    by code_simp
  have "convertLine c [52, 50, 32, 233] = Inr (htmlEncodeUtf8 [52, 50, 32, 233] @ endl)"
    by (rule convertLine_other) (simp_all add: rgxDialogNumber_def rgxTimeFrame_def iswdigit_def)
  then have i: "convertLine c [52, 50, 32, 233] = Inr (L ''42 &#233;'' @ endl)"
    unfolding h .
  have j: "outfile (convertFile c filepath \<lparr>in_stream = Inr [L ''42''], out_opens = True\<rparr>)
       = Some (L ''WEBVTT'' @ endl @ endl)"
    by (simp add: convertFile_def b)
  have k: "outfile (convertFile c filepath \<lparr>in_stream = Inr [L ''42 dialogue''], out_opens = True\<rparr>)
       = Some (L ''WEBVTT'' @ endl @ endl @ L ''42 dialogue'' @ endl)"
    by (simp add: convertFile_def d e)
  have l: "outfile (convertFile c filepath \<lparr>in_stream = Inr [[52, 50, 32, 233]], out_opens = True\<rparr>)
       = Some (L ''WEBVTT'' @ endl @ endl @ L ''42 &#233;'' @ endl)"
    by (simp add: convertFile_def i)
  from a g b j d e k i l show ?thesis by (intro conjI)
qed

theorem index_line_whole_match_witness:
  "L ''2024'' \<noteq> [] \<and> list_all iswdigit (L ''2024'')
   \<and> convertLine \<lparr>timeOffsetMs = 0, outputDir = [], quiet = False\<rparr> (L ''2024'') = Inr []
   \<and> convertLine \<lparr>timeOffsetMs = 0, outputDir = [], quiet = False\<rparr> (L ''2024 AD'') \<noteq> Inr []
   \<and> \<not> list_all iswdigit (L ''2024 AD'')
   \<and> \<not> ([50, 48, 50, 52, 32, 233] \<noteq> [] \<and> list_all iswdigit [50, 48, 50, 52, 32, 233])
   \<and> rgxTimeFrame [50, 48, 50, 52, 32, 233] = None
   \<and> convertLine \<lparr>timeOffsetMs = 0, outputDir = [], quiet = False\<rparr> [50, 48, 50, 52, 32, 233]
       = Inr (L ''2024 &#233;'' @ endl)"
proof -
  let ?c = "\<lparr>timeOffsetMs = 0, outputDir = [], quiet = False\<rparr>"
  have a: "L ''2024'' \<noteq> [] \<and> list_all iswdigit (L ''2024'')" by code_simp
  have b: "\<not> list_all iswdigit (L ''2024 AD'')" by code_simp
  have n: "\<not> ([50, 48, 50, 52, 32, 233] \<noteq> [] \<and> list_all iswdigit [50, 48, 50, 52, 32, 233])"
    by code_simp
  have t: "rgxTimeFrame [50, 48, 50, 52, 32, 233] = None" by code_simp
  have h: "htmlEncodeUtf8 [50, 48, 50, 52, 32, 233] = L ''2024 &#233;''" by code_simp
  from index_line_whole_match [of ?c "L ''2024''"] a
  have x: "convertLine ?c (L ''2024'') = Inr []" by blast
  from index_line_whole_match [of ?c "L ''2024 AD''"] b
  have y: "convertLine ?c (L ''2024 AD'') \<noteq> Inr []" by blast
  from index_line_whole_match [of ?c "[50, 48, 50, 52, 32, 233]"] n t
  have "convertLine ?c [50, 48, 50, 52, 32, 233] = Inr (htmlEncodeUtf8 [50, 48, 50, 52, 32, 233] @ endl)"
    by blast
  then have z: "convertLine ?c [50, 48, 50, 52, 32, 233] = Inr (L ''2024 &#233;'' @ endl)"
    unfolding h .
  from a x y b n t z show ?thesis by (intro conjI) blast+
qed

lemma convertLines_appends: "\<exists>rest. snd (convertLines c ls out) = out @ rest"
proof (induction ls arbitrary: out)
  case Nil
  show ?case by simp
next
  case (Cons sLine ls)
  show ?case
  proof (cases "convertLine c sLine")
    case (Inl e)
    then show ?thesis by simp
  next
    case (Inr w)
    from Cons.IH [of "out @ w"] obtain rest where "snd (convertLines c ls (out @ w)) = (out @ w) @ rest"
      by blast
    with Inr show ?thesis by simp
  qed
qed

lemma outfile_convertFile:
  "outfile (convertFile c filepath f)
     = (case in_stream f of Inl e \<Rightarrow> None
        | Inr ls \<Rightarrow>
            if out_opens f then Some (snd (convertLines c ls (L ''WEBVTT'' @ endl @ endl)))
            else None)"
  by (simp add: convertFile_def split: sum.splits prod.splits option.splits)

lemma convertLines_no_exception:
  "fst (convertLines c ls out) = None \<Longrightarrow>
     snd (convertLines c ls out)
       = out @ concat (map (\<lambda>sLine. case convertLine c sLine of Inl e \<Rightarrow> [] | Inr w \<Rightarrow> w) ls)"
proof (induction ls arbitrary: out)
  case Nil
  show ?case by simp
next
  case (Cons sLine ls)
  show ?case
  proof (cases "convertLine c sLine")
    case (Inl e)
    with Cons.prems show ?thesis by simp
  next
    case (Inr w)
    with Cons.prems have "fst (convertLines c ls (out @ w)) = None" by simp
    from Cons.IH [OF this] Inr show ?thesis by simp
  qed
qed

text \<open>
  C7. Whatever the input file, the text that \<open>convertFile\<close> writes begins with the line
  \<open>WEBVTT\<close> and an empty line, and what is written for the lines of the input comes
  after them: when no exception ends the loop, the text is the header followed by what
  each line gives, in order. There is such a text whenever the input stream is set up
  and the output file opens; there is none exactly when setting up the input stream
  throws, before the output file is opened, or the output file cannot be opened.
\<close>

theorem output_begins_with_header:
  "(\<forall>out. outfile (convertFile c filepath f) = Some out \<longrightarrow>
         (\<exists>rest. out = L ''WEBVTT'' @ endl @ endl @ rest))
   \<and> (\<forall>out. outfile (convertFile c filepath f) = Some out \<and> retcode (convertFile c filepath f) = 0 \<longrightarrow>
         (\<exists>ls. in_stream f = Inr ls
            \<and> out = L ''WEBVTT'' @ endl @ endl
                @ concat (map (\<lambda>sLine. case convertLine c sLine of Inl e \<Rightarrow> [] | Inr w \<Rightarrow> w) ls)))
   \<and> (\<forall>ls. in_stream f = Inr ls \<and> out_opens f \<longrightarrow>
         (\<exists>rest. outfile (convertFile c filepath f) = Some (L ''WEBVTT'' @ endl @ endl @ rest)))
   \<and> (outfile (convertFile c filepath f) = None \<longleftrightarrow> (\<exists>e. in_stream f = Inl e) \<or> \<not> out_opens f)
   \<and> L ''WEBVTT'' @ endl @ endl = [87, 69, 66, 86, 84, 84, 10, 10]"
proof -
  have a: "\<exists>rest. outfile (convertFile c filepath f) = Some (L ''WEBVTT'' @ endl @ endl @ rest)"
    if "in_stream f = Inr ls \<and> out_opens f" for ls
    using that convertLines_appends [of c ls "L ''WEBVTT'' @ endl @ endl"]
    by (auto simp: outfile_convertFile)
  have b: "\<exists>rest. out = L ''WEBVTT'' @ endl @ endl @ rest"
    if "outfile (convertFile c filepath f) = Some out" for out
  proof (cases "in_stream f")
    case (Inl e)
    with that show ?thesis by (simp add: outfile_convertFile)
  next
    case (Inr ls)
    with that have "out_opens f" by (simp add: outfile_convertFile split: if_splits)
    with that Inr a [of ls] show ?thesis by auto
  qed
  have g: "\<exists>ls. in_stream f = Inr ls
      \<and> out = L ''WEBVTT'' @ endl @ endl
          @ concat (map (\<lambda>sLine. case convertLine c sLine of Inl e \<Rightarrow> [] | Inr w \<Rightarrow> w) ls)"
    if "outfile (convertFile c filepath f) = Some out \<and> retcode (convertFile c filepath f) = 0" for out
  proof (cases "in_stream f")
    case (Inl e)
    with that show ?thesis by (simp add: outfile_convertFile)
  next
    case (Inr ls)
    from that Inr have o: "out = snd (convertLines c ls (L ''WEBVTT'' @ endl @ endl))"
      by (simp add: outfile_convertFile split: if_splits)
    from that Inr have "fst (convertLines c ls (L ''WEBVTT'' @ endl @ endl)) = None"
      by (auto simp: convertFile_def split: prod.splits option.splits)
    from convertLines_no_exception [OF this] o Inr show ?thesis by simp
  qed
  have d: "outfile (convertFile c filepath f) = None \<longleftrightarrow> (\<exists>e. in_stream f = Inl e) \<or> \<not> out_opens f"
    by (cases "in_stream f") (simp_all add: outfile_convertFile)
  have e: "L ''WEBVTT'' @ endl @ endl = [87, 69, 66, 86, 84, 84, 10, 10]"
    by (simp add: L_simps endl_def)
  from a b g d e show ?thesis by blast
qed

theorem output_begins_with_header_witness:
  "outfile (convertFile \<lparr>timeOffsetMs = 0, outputDir = [], quiet = False\<rparr> ''a.srt''
      \<lparr>in_stream = Inr [L ''1'', L ''00:00:01,000 --> 00:00:02,500'', L ''Hello, world!''],
       out_opens = True\<rparr>)
     = Some (L ''WEBVTT'' @ endl @ endl @ L ''00:00:01.000 --> 00:00:02.500'' @ endl
             @ L ''Hello, world!'' @ endl)
   \<and> retcode (convertFile \<lparr>timeOffsetMs = 0, outputDir = [], quiet = False\<rparr> ''a.srt''
      \<lparr>in_stream = Inr [L ''1'', L ''00:00:01,000 --> 00:00:02,500'', L ''Hello, world!''],
       out_opens = True\<rparr>) = 0
   \<and> (\<exists>rest. L ''WEBVTT'' @ endl @ endl @ L ''00:00:01.000 --> 00:00:02.500'' @ endl
             @ L ''Hello, world!'' @ endl = L ''WEBVTT'' @ endl @ endl @ rest)
   \<and> in_stream \<lparr>in_stream = Inr [L ''Hi''], out_opens = False\<rparr> = Inr [L ''Hi'']
   \<and> \<not> out_opens \<lparr>in_stream = Inr [L ''Hi''], out_opens = False\<rparr>
   \<and> outfile (convertFile \<lparr>timeOffsetMs = 0, outputDir = [], quiet = False\<rparr> ''a.srt''
        \<lparr>in_stream = Inr [L ''Hi''], out_opens = False\<rparr>) = None"
proof -
  let ?c = "\<lparr>timeOffsetMs = 0, outputDir = [], quiet = False\<rparr>"
  let ?f = "\<lparr>in_stream = Inr [L ''1'', L ''00:00:01,000 --> 00:00:02,500'', L ''Hello, world!''],
       out_opens = True\<rparr>"
  let ?g = "\<lparr>in_stream = Inr [L ''Hi''], out_opens = False\<rparr>"
  let ?out = "L ''WEBVTT'' @ endl @ endl @ L ''00:00:01.000 --> 00:00:02.500'' @ endl
             @ L ''Hello, world!'' @ endl"
  have a: "outfile (convertFile ?c ''a.srt'' ?f) = Some ?out"
    by code_simp
  have r: "retcode (convertFile ?c ''a.srt'' ?f) = 0"
    by code_simp
  have i: "in_stream ?g = Inr [L ''Hi'']" and o: "\<not> out_opens ?g"
    by simp_all
  from output_begins_with_header [of ?c "''a.srt''" ?f]
  have "\<forall>out. outfile (convertFile ?c ''a.srt'' ?f) = Some out \<longrightarrow>
         (\<exists>rest. out = L ''WEBVTT'' @ endl @ endl @ rest)"
    by blast
  with a have p: "\<exists>rest. ?out = L ''WEBVTT'' @ endl @ endl @ rest"
    by blast
  from output_begins_with_header [of ?c "''a.srt''" ?g] o
  have n: "outfile (convertFile ?c ''a.srt'' ?g) = None"
    by blast
  from a r p i o n show ?thesis by (intro conjI)
qed

section \<open>Properties of the directory walk\<close>

lemma retcode_convertFile:
  "retcode (convertFile c filepath f) = (if conversion_exception c f = None then 0 else 1)"
  by (auto simp: convertFile_def conversion_exception_def split: sum.splits prod.splits option.splits)

lemma cerr_convertFile:
  "cerr (convertFile c filepath f) = map_option (Pair filepath) (conversion_exception c f)"
  by (auto simp: convertFile_def conversion_exception_def split: sum.splits prod.splits option.splits)

lemma unopened_output:
  "\<not> out_opens f \<Longrightarrow>
     outfile (convertFile c filepath f) = None
     \<and> retcode (convertFile c filepath f) = (if conversion_exception c f = None then 0 else 1)"
  by (simp add: retcode_convertFile outfile_convertFile split: sum.splits)

lemma fst_convertDirectory_01:
  "fst (convertDirectory c dirpath recursive d) = 0 \<or> fst (convertDirectory c dirpath recursive d) = 1"
  by (cases d) (auto simp: Let_def split: prod.splits)

lemma entry_retcode_simps:
  "entry_retcode c dirpath recursive (item, DT_REG f) =
     (if file_ext item = ''srt'' \<or> file_ext item = ''SRT''
      then retcode (convertFile c (dirpath @ DIR_SEPARATOR @ item) f) else 0)"
  "entry_retcode c dirpath recursive (item, DT_LNK f) =
     (if file_ext item = ''srt'' \<or> file_ext item = ''SRT''
      then retcode (convertFile c (dirpath @ DIR_SEPARATOR @ item) f) else 0)"
  "entry_retcode c dirpath recursive (item, DT_DIR d) =
     (if recursive \<and> item \<noteq> ''.'' \<and> item \<noteq> ''..''
      then fst (convertDirectory c (dirpath @ DIR_SEPARATOR @ item) recursive d) else 0)"
  "entry_retcode c dirpath recursive (item, DT_UNKNOWN) = 0"
  by (simp_all add: entry_retcode_def)

lemma entry_retcode_01: "entry_retcode c dirpath recursive e = 0 \<or> entry_retcode c dirpath recursive e = 1"
  using fst_convertDirectory_01
  by (auto simp: entry_retcode_def retcode_convertFile split: prod.splits fsnode.splits)

lemma sum_list_entry_retcode:
  "0 \<le> sum_list (map (entry_retcode c dirpath recursive) es)"
  "sum_list (map (entry_retcode c dirpath recursive) es) \<noteq> 0
     \<longleftrightarrow> list_ex (\<lambda>e. entry_retcode c dirpath recursive e \<noteq> 0) es"
proof -
  show nonneg: "0 \<le> sum_list (map (entry_retcode c dirpath recursive) es)" for es
  proof (induction es)
    case Nil
    show ?case by simp
  next
    case (Cons e es)
    from entry_retcode_01 [of c dirpath recursive e] Cons show ?case by auto
  qed
  show "sum_list (map (entry_retcode c dirpath recursive) es) \<noteq> 0
     \<longleftrightarrow> list_ex (\<lambda>e. entry_retcode c dirpath recursive e \<noteq> 0) es"
  proof (induction es)
    case Nil
    show ?case by simp
  next
    case (Cons e es)
    from entry_retcode_01 [of c dirpath recursive e] nonneg [of es] Cons show ?case
      by auto
  qed
qed

lemma fst_readdir_loop:
  "fst (readdir_loop c dirpath recursive es nRetCodes cs)
     = nRetCodes + sum_list (map (entry_retcode c dirpath recursive) es)"
proof (induction es arbitrary: nRetCodes cs)
  case Nil
  show ?case by simp
next
  case (Cons e es)
  obtain item node where e: "e = (item, node)" by (cases e)
  show ?case
  proof (cases node)
    case (DT_REG f)
    show ?thesis unfolding e DT_REG by (simp add: Cons.IH entry_retcode_simps Let_def)
  next
    case (DT_LNK f)
    show ?thesis unfolding e DT_LNK by (simp add: Cons.IH entry_retcode_simps Let_def)
  next
    case (DT_DIR d)
    show ?thesis
    proof (cases "recursive \<and> item \<noteq> ''.'' \<and> item \<noteq> ''..''")
      case True
      obtain r cs' where r: "convertDirectory c (dirpath @ DIR_SEPARATOR @ item) recursive d = (r, cs')"
        by (cases "convertDirectory c (dirpath @ DIR_SEPARATOR @ item) recursive d")
      have "readdir_loop c dirpath recursive ((item, DT_DIR d) # es) nRetCodes cs
          = readdir_loop c dirpath recursive es (nRetCodes + r) (cs @ cs')"
        using True r by simp
      moreover have "entry_retcode c dirpath recursive (item, DT_DIR d) = r"
        using True r by (simp add: entry_retcode_simps)
      ultimately show ?thesis unfolding e DT_DIR by (simp add: Cons.IH)
    next
      case False
      have "readdir_loop c dirpath recursive ((item, DT_DIR d) # es) nRetCodes cs
          = readdir_loop c dirpath recursive es nRetCodes cs"
        using False by auto
      moreover have "entry_retcode c dirpath recursive (item, DT_DIR d) = 0"
        using False by (auto simp: entry_retcode_simps)
      ultimately show ?thesis unfolding e DT_DIR by (simp add: Cons.IH)
    qed
  next
    case DT_UNKNOWN
    show ?thesis unfolding e DT_UNKNOWN by (simp add: Cons.IH entry_retcode_simps)
  qed
qed

lemma fst_convertDirectory:
  "fst (convertDirectory c dirpath recursive d) \<noteq> 0
     \<longleftrightarrow> d = Unreadable \<or> some_conversion_failed c dirpath recursive d"
proof (cases d)
  case Unreadable
  then show ?thesis by simp
next
  case (Entries es)
  have "fst (convertDirectory c dirpath recursive (Entries es)) \<noteq> 0
      \<longleftrightarrow> fst (readdir_loop c (rtrim (rtrim dirpath CHR ''/'') (CHR 0x5C)) recursive es 0 []) \<noteq> 0"
    by (simp add: Let_def split: prod.splits)
  then show ?thesis
    unfolding Entries by (simp add: fst_readdir_loop sum_list_entry_retcode(2) some_conversion_failed_def)
qed

lemma snd_convertDirectory:
  "snd (convertDirectory c dirpath0 recursive d)
     = map (\<lambda>(path, f). (path, convertFile c path f)) (selected_files dirpath0 recursive d)"
  and snd_readdir_loop:
  "snd (readdir_loop c dirpath recursive es nRetCodes cs)
     = cs @ map (\<lambda>(path, f). (path, convertFile c path f)) (selected_entries dirpath recursive es)"
proof (induction c dirpath0 recursive d and c dirpath recursive es nRetCodes cs
    rule: convertDirectory_readdir_loop.induct)
  case (1 c dirpath0 recursive)
  show ?case by simp
next
  case (2 c dirpath0 recursive es)
  obtain n cs where r: "readdir_loop c (rtrim (rtrim dirpath0 CHR ''/'') (CHR 0x5C)) recursive es 0 [] = (n, cs)"
    by (cases "readdir_loop c (rtrim (rtrim dirpath0 CHR ''/'') (CHR 0x5C)) recursive es 0 []")
  from 2 [OF refl] r show ?case by (simp add: Let_def)
next
  case (3 c dirpath recursive nRetCodes cs)
  show ?case by simp
next
  case (4 c dirpath recursive item f rest nRetCodes cs)
  show ?case
  proof (cases "file_ext item = ''srt'' \<or> file_ext item = ''SRT''")
    case True
    from 4(1) [OF refl True refl refl] True show ?thesis by (simp add: Let_def)
  next
    case False
    from 4(2) [OF refl False] False show ?thesis by (simp add: Let_def)
  qed
next
  case (5 c dirpath recursive item f rest nRetCodes cs)
  show ?case
  proof (cases "file_ext item = ''srt'' \<or> file_ext item = ''SRT''")
    case True
    from 5(1) [OF refl True refl refl] True show ?thesis by (simp add: Let_def)
  next
    case False
    from 5(2) [OF refl False] False show ?thesis by (simp add: Let_def)
  qed
next
  case (6 c dirpath recursive item d rest nRetCodes cs)
  show ?case
  proof (cases "recursive \<and> item \<noteq> ''.'' \<and> item \<noteq> ''..''")
    case True
    obtain r cs' where r: "convertDirectory c (dirpath @ DIR_SEPARATOR @ item) recursive d = (r, cs')"
      by (cases "convertDirectory c (dirpath @ DIR_SEPARATOR @ item) recursive d")
    from 6(1) [OF True] r have "cs' = map (\<lambda>(path, f). (path, convertFile c path f))
        (selected_files (dirpath @ DIR_SEPARATOR @ item) recursive d)"
      by simp
    moreover have "readdir_loop c dirpath recursive ((item, DT_DIR d) # rest) nRetCodes cs
        = readdir_loop c dirpath recursive rest (nRetCodes + r) (cs @ cs')"
      using True r by simp
    moreover have "selected_entries dirpath recursive ((item, DT_DIR d) # rest)
        = selected_files (dirpath @ DIR_SEPARATOR @ item) recursive d
          @ selected_entries dirpath recursive rest"
      using True by simp
    ultimately show ?thesis using 6(2) [OF True r [symmetric]] by simp
  next
    case False
    have "readdir_loop c dirpath recursive ((item, DT_DIR d) # rest) nRetCodes cs
        = readdir_loop c dirpath recursive rest nRetCodes cs"
      using False by auto
    moreover have "selected_entries dirpath recursive ((item, DT_DIR d) # rest)
        = selected_entries dirpath recursive rest"
      using False by auto
    ultimately show ?thesis using 6(3) [OF False] by simp
  qed
next
  case (7 c dirpath recursive item rest nRetCodes cs)
  then show ?case by simp
qed

text \<open>
  C9, as amended. The errors are recovered at the boundary of a file: \<open>convertFile\<close>
  returns a non-zero code exactly when an exception occurs during the conversion of the
  file, and then it returns 1 and reports the file path and the cause. A file that fails
  does not stop the batch: the walk converts every file it selects by name and type,
  whatever the results. \<open>convertDirectory\<close> returns a non-zero code if and only if the
  directory itself cannot be opened, or at least one conversion of a file or of a
  subdirectory (with the recursive flag) failed; its code is 0 or 1.
\<close>

theorem errors_recovered_per_file:
  "(retcode (convertFile c filepath f) \<noteq> 0 \<longleftrightarrow> conversion_exception c f \<noteq> None)
   \<and> (\<forall>e. conversion_exception c f = Some e \<longrightarrow>
          retcode (convertFile c filepath f) = 1
          \<and> cerr (convertFile c filepath f) = Some (filepath, e))
   \<and> snd (convertDirectory c dirpath recursive d)
       = map (\<lambda>(path, f). (path, convertFile c path f)) (selected_files dirpath recursive d)
   \<and> (fst (convertDirectory c dirpath recursive d) \<noteq> 0
        \<longleftrightarrow> d = Unreadable \<or> some_conversion_failed c dirpath recursive d)
   \<and> (fst (convertDirectory c dirpath recursive d) = 0
        \<or> fst (convertDirectory c dirpath recursive d) = 1)"
proof (intro conjI allI impI)
  show "retcode (convertFile c filepath f) \<noteq> 0 \<longleftrightarrow> conversion_exception c f \<noteq> None"
    by (simp add: retcode_convertFile)
next
  fix e
  assume "conversion_exception c f = Some e"
  then show "retcode (convertFile c filepath f) = 1"
    and "cerr (convertFile c filepath f) = Some (filepath, e)"
    by (simp_all add: retcode_convertFile cerr_convertFile)
next
  show "snd (convertDirectory c dirpath recursive d)
       = map (\<lambda>(path, f). (path, convertFile c path f)) (selected_files dirpath recursive d)"
    by (rule snd_convertDirectory)
next
  show "fst (convertDirectory c dirpath recursive d) \<noteq> 0
        \<longleftrightarrow> d = Unreadable \<or> some_conversion_failed c dirpath recursive d"
    by (rule fst_convertDirectory)
next
  show "fst (convertDirectory c dirpath recursive d) = 0
        \<or> fst (convertDirectory c dirpath recursive d) = 1"
    by (rule fst_convertDirectory_01)
qed

theorem errors_recovered_per_file_witness:
  "conversion_exception \<lparr>timeOffsetMs = 0, outputDir = [], quiet = False\<rparr>
       \<lparr>in_stream = Inl Failure, out_opens = True\<rparr>
     = Some Failure
   \<and> retcode (convertFile \<lparr>timeOffsetMs = 0, outputDir = [], quiet = False\<rparr> ''d/a.srt''
        \<lparr>in_stream = Inl Failure, out_opens = True\<rparr>) = 1
   \<and> cerr (convertFile \<lparr>timeOffsetMs = 0, outputDir = [], quiet = False\<rparr> ''d/a.srt''
        \<lparr>in_stream = Inl Failure, out_opens = True\<rparr>) = Some (''d/a.srt'', Failure)
   \<and> some_conversion_failed \<lparr>timeOffsetMs = 0, outputDir = [], quiet = False\<rparr> ''d'' False
        (Entries [(''a.srt'', DT_REG \<lparr>in_stream = Inl Failure, out_opens = True\<rparr>),
                  (''b.srt'', DT_REG \<lparr>in_stream = Inr [L ''Hi''], out_opens = True\<rparr>)])
   \<and> fst (convertDirectory \<lparr>timeOffsetMs = 0, outputDir = [], quiet = False\<rparr> ''d'' False
        (Entries [(''a.srt'', DT_REG \<lparr>in_stream = Inl Failure, out_opens = True\<rparr>),
                  (''b.srt'', DT_REG \<lparr>in_stream = Inr [L ''Hi''], out_opens = True\<rparr>)])) = 1
   \<and> map fst (snd (convertDirectory \<lparr>timeOffsetMs = 0, outputDir = [], quiet = False\<rparr> ''d'' False
        (Entries [(''a.srt'', DT_REG \<lparr>in_stream = Inl Failure, out_opens = True\<rparr>),
                  (''b.srt'', DT_REG \<lparr>in_stream = Inr [L ''Hi''], out_opens = True\<rparr>)])))
       = [''d/a.srt'', ''d/b.srt'']"
proof -
  let ?c = "\<lparr>timeOffsetMs = 0, outputDir = [], quiet = False\<rparr>"
  let ?a = "\<lparr>in_stream = Inl Failure, out_opens = True\<rparr>"
  let ?b = "\<lparr>in_stream = Inr [L ''Hi''], out_opens = True\<rparr>"
  let ?d = "Entries [(''a.srt'', DT_REG ?a), (''b.srt'', DT_REG ?b)]"
  note inst = errors_recovered_per_file [of ?c "''d/a.srt''" ?a "''d''" False ?d]
  have a: "conversion_exception ?c ?a = Some Failure"
    by (simp add: conversion_exception_def)
  have b: "some_conversion_failed ?c ''d'' False ?d"
    by code_simp
  have s: "selected_files ''d'' False ?d = [(''d/a.srt'', ?a), (''d/b.srt'', ?b)]"
    by code_simp
  from inst a have r: "retcode (convertFile ?c ''d/a.srt'' ?a) = 1"
    and e: "cerr (convertFile ?c ''d/a.srt'' ?a) = Some (''d/a.srt'', Failure)"
    by blast+
  from inst b have "fst (convertDirectory ?c ''d'' False ?d) \<noteq> 0"
    by blast
  with inst have n: "fst (convertDirectory ?c ''d'' False ?d) = 1"
    by blast
  from inst have "snd (convertDirectory ?c ''d'' False ?d)
      = map (\<lambda>(path, f). (path, convertFile ?c path f)) (selected_files ''d'' False ?d)"
    by blast
  then have m: "map fst (snd (convertDirectory ?c ''d'' False ?d)) = [''d/a.srt'', ''d/b.srt'']"
    unfolding s by simp
  from a r e b n m show ?thesis by (intro conjI)
qed

text \<open>
  The claim as it is written fails for a directory that cannot be opened: the code
  returned is 1 although no conversion of a file or of a subdirectory failed, none
  having been made.
\<close>

theorem unreadable_directory_counterexample:
  "fst (convertDirectory \<lparr>timeOffsetMs = 0, outputDir = [], quiet = False\<rparr> ''d'' True Unreadable) \<noteq> 0
   \<and> \<not> some_conversion_failed \<lparr>timeOffsetMs = 0, outputDir = [], quiet = False\<rparr> ''d'' True
         Unreadable
   \<and> snd (convertDirectory \<lparr>timeOffsetMs = 0, outputDir = [], quiet = False\<rparr> ''d'' True Unreadable)
       = []"
  by (simp add: some_conversion_failed_def)

lemma rfind_char_absent: "ch \<notin> set xs \<Longrightarrow> rfind_char xs ch = npos"
  by (induction xs) auto

lemma rfind_char_first: "ch \<notin> set ys \<Longrightarrow> rfind_char (ys @ ch # xs) ch = int (length xs)"
  by (induction ys) auto

lemma file_ext_no_dot: "CHR ''.'' \<notin> set item \<Longrightarrow> file_ext item = item"
  by (simp add: file_ext_def find_last_of_def rfind_char_absent npos_def)

lemma file_ext_last_dot:
  assumes "CHR ''.'' \<notin> set ext" and "int (length base) + 1 < 18446744073709551616"
  shows "file_ext (base @ CHR ''.'' # ext) = ext"
proof -
  have "find_last_of (base @ CHR ''.'' # ext) CHR ''.'' = int (length base)"
    using assms(1) rfind_char_first [of "CHR ''.''" "rev ext" "rev base"]
    by (simp add: find_last_of_def)
  moreover have "(int (length base) + 1) mod 18446744073709551616 = int (length base) + 1"
    using assms(2) by simp
  ultimately show ?thesis
    by (simp add: file_ext_def nat_add_distrib)
qed

text \<open>
  C8, at the input where the code departs from it. A regular file whose name is \<open>srt\<close>
  has no \<open>.\<close> in its name and so no extension; \<open>find_last_of\<close> returns \<open>npos\<close>, the sum
  \<open>npos + 1\<close> wraps to 0, the whole name is taken for the extension, and the walk
  converts the file.
\<close>

theorem dotless_srt_name_converted:
  "CHR ''.'' \<notin> set ''srt''
   \<and> find_last_of ''srt'' CHR ''.'' = npos
   \<and> file_ext ''srt'' = ''srt''
   \<and> map fst (snd (convertDirectory c ''subs'' recursive (Entries [(''srt'', DT_REG f)])))
       = [''subs/srt'']"
proof -
  have a: "CHR ''.'' \<notin> set ''srt''" by simp
  have b: "find_last_of ''srt'' CHR ''.'' = npos"
    by (simp add: find_last_of_def)
  have d: "file_ext ''srt'' = ''srt''"
    using a by (rule file_ext_no_dot)
  have s: "selected_files ''subs'' recursive (Entries [(''srt'', DT_REG f)]) = [(''subs/srt'', f)]"
    by (simp add: d rtrim_def DIR_SEPARATOR_def)
  have "map fst (snd (convertDirectory c ''subs'' recursive (Entries [(''srt'', DT_REG f)])))
       = [''subs/srt'']"
    unfolding snd_convertDirectory s by simp
  with a b d show ?thesis by (intro conjI)
qed

end
